theory Spec2Isabelle
  imports Main
begin

section \<open>JavaScript string operations used by the two pipelines\<close>

text \<open>
  Strings are lists of characters; a character stands for one code unit of a
  JavaScript string, and the model covers the code units below 256. The functions
  below are the string methods that \<^verbatim>\<open>build.js\<close> and \<^verbatim>\<open>check.js\<close> call, with the
  arguments in the order pattern first, subject second.
\<close>

definition startsWith :: "string \<Rightarrow> string \<Rightarrow> bool" where
  "startsWith pre s = (take (length pre) s = pre)"

definition endsWith :: "string \<Rightarrow> string \<Rightarrow> bool" where
  "endsWith suf s = (length suf \<le> length s \<and> drop (length s - length suf) s = suf)"

text \<open>\<^verbatim>\<open>s.substring(n)\<close> and \<^verbatim>\<open>s.substring(0, n)\<close>.\<close>

definition substring_from :: "nat \<Rightarrow> string \<Rightarrow> string" where
  "substring_from n s = drop n s"

definition substring_to :: "nat \<Rightarrow> string \<Rightarrow> string" where
  "substring_to n s = take n s"

text \<open>\<^verbatim>\<open>s.split(c)\<close> for a one-character separator: the empty string gives one empty piece.\<close>

fun split :: "char \<Rightarrow> string \<Rightarrow> string list" where
  "split c [] = [[]]"
| "split c (x # xs) =
     (if x = c then [] # split c xs
      else (case split c xs of [] \<Rightarrow> [[x]] | l # ls \<Rightarrow> (x # l) # ls))"

text \<open>\<^verbatim>\<open>pieces.join(sep)\<close>.\<close>

fun join :: "string \<Rightarrow> string list \<Rightarrow> string" where
  "join sep [] = []"
| "join sep [l] = l"
| "join sep (l # m # ls) = l @ sep @ join sep (m # ls)"

text \<open>\<^verbatim>\<open>s.includes(pat)\<close>: \<open>pat\<close> occurs somewhere in \<open>s\<close>.\<close>

fun str_includes :: "string \<Rightarrow> string \<Rightarrow> bool" where
  "str_includes pat [] = (pat = [])"
| "str_includes pat (x # xs) = (startsWith pat (x # xs) \<or> str_includes pat xs)"

text \<open>
  \<^verbatim>\<open>s.replace(pat, rep)\<close> with a string pattern: only the first occurrence of \<open>pat\<close>
  is replaced. (The replacement text used by the program has no \<^verbatim>\<open>$\<close> pattern.)
\<close>

fun replace :: "string \<Rightarrow> string \<Rightarrow> string \<Rightarrow> string" where
  "replace pat rep [] = (if pat = [] then rep else [])"
| "replace pat rep (x # xs) =
     (if startsWith pat (x # xs) then rep @ drop (length pat) (x # xs)
      else x # replace pat rep xs)"

text \<open>
  White space as \<^verbatim>\<open>trim()\<close> sees it, for code units below 256: tab, line feed,
  vertical tab, form feed, carriage return, space and the no-break space.
\<close>

definition is_ws :: "char \<Rightarrow> bool" where
  "is_ws c = (of_char c \<in> {9, 10, 11, 12, 13, 32, 160 :: nat})"

definition trim :: "string \<Rightarrow> string" where
  "trim s = rev (dropWhile is_ws (rev (dropWhile is_ws s)))"

section \<open>Node's \<^verbatim>\<open>path\<close> module (POSIX flavour)\<close>

text \<open>
  \<^verbatim>\<open>path.dirname\<close>, \<^verbatim>\<open>path.join\<close> and \<^verbatim>\<open>path.extname\<close> belong to the Node
  runtime, not to the repository. They are modelled after the runtime's POSIX
  implementation: \<open>normalize_segments\<close> is the loop of \<^verbatim>\<open>normalizeString\<close> read
  one segment at a time, with the result kept as a list of segments.
\<close>

fun normalize_segments :: "bool \<Rightarrow> string list \<Rightarrow> string list \<Rightarrow> string list" where
  "normalize_segments allowAboveRoot res [] = res"
| "normalize_segments allowAboveRoot res (seg # segs) =
     (if seg = [] \<or> seg = ''.'' then normalize_segments allowAboveRoot res segs
      else if seg = ''..'' then
        (if res \<noteq> [] \<and> last res \<noteq> ''..''
           then normalize_segments allowAboveRoot (butlast res) segs
         else if allowAboveRoot
           then normalize_segments allowAboveRoot (res @ [''..'']) segs
         else normalize_segments allowAboveRoot res segs)
      else normalize_segments allowAboveRoot (res @ [seg]) segs)"

definition normalizeString :: "string \<Rightarrow> bool \<Rightarrow> string" where
  "normalizeString p allowAboveRoot =
     join ''/'' (normalize_segments allowAboveRoot [] (split CHR ''/'' p))"

definition path_normalize :: "string \<Rightarrow> string" where
  "path_normalize p =
     (if p = [] then ''.''
      else
        let isAbsolute = (hd p = CHR ''/'');
            trailingSeparator = (last p = CHR ''/'');
            q = normalizeString p (\<not> isAbsolute)
        in if q = [] then
             (if isAbsolute then ''/'' else if trailingSeparator then ''./'' else ''.'')
           else
             let q' = (if trailingSeparator then q @ ''/'' else q)
             in if isAbsolute then ''/'' @ q' else q')"

text \<open>\<^verbatim>\<open>path.join(...args)\<close>: the non-empty arguments joined by a slash, then normalised.\<close>

definition path_join :: "string list \<Rightarrow> string" where
  "path_join args =
     (let parts = filter (\<lambda>a. a \<noteq> []) args
      in if parts = [] then ''.'' else path_normalize (join ''/'' parts))"

text \<open>
  \<^verbatim>\<open>path.dirname\<close>: the loop runs from the last index down to index 1 and stops at
  the first slash seen after a character that is not a slash.
\<close>

fun dirname_end :: "string \<Rightarrow> nat \<Rightarrow> bool \<Rightarrow> nat option" where
  "dirname_end p 0 matchedSlash = None"
| "dirname_end p (Suc i) matchedSlash =
     (if p ! Suc i = CHR ''/''
        then (if \<not> matchedSlash then Some (Suc i) else dirname_end p i matchedSlash)
      else dirname_end p i False)"

definition path_dirname :: "string \<Rightarrow> string" where
  "path_dirname p =
     (if p = [] then ''.''
      else
        let hasRoot = (hd p = CHR ''/'')
        in case dirname_end p (length p - 1) True of
             None \<Rightarrow> (if hasRoot then ''/'' else ''.'')
           | Some e \<Rightarrow> (if hasRoot \<and> e = 1 then ''//'' else take e p))"

text \<open>
  \<^verbatim>\<open>path.extname\<close>: the part of the last path component from its last dot on; empty
  when there is no dot, when the only dot opens the component, or for \<^verbatim>\<open>..\<close>.
\<close>

definition basename_part :: "string \<Rightarrow> string" where
  "basename_part p =
     rev (takeWhile (\<lambda>c. c \<noteq> CHR ''/'') (dropWhile (\<lambda>c. c = CHR ''/'') (rev p)))"

definition path_extname :: "string \<Rightarrow> string" where
  "path_extname p =
     (let b = basename_part p;
          tail = rev (takeWhile (\<lambda>c. c \<noteq> CHR ''.'') (rev b))
      in if CHR ''.'' \<notin> set b then []
         else if length tail + 1 = length b then []
         else if b = ''..'' then []
         else CHR ''.'' # tail)"

section \<open>The virtual file system plugin of \<^verbatim>\<open>build.js\<close>\<close>

text \<open>
  The arguments the bundler passes to an \<^verbatim>\<open>onResolve\<close> callback, and the three
  shapes of object the callback returns: a path in a namespace, or an external path.
\<close>

record resolve_args =
  path :: string
  importer :: string
  kind :: string

datatype resolve_result =
    InNamespace string string
  | ExternalPath string

text \<open>
  \<^verbatim>\<open>onResolve\<close> (build.js lines 29--62). The callback pushes onto the array
  \<^verbatim>\<open>collectedExternals\<close> in its last branch, so the array is passed in and returned.
\<close>

definition onResolve :: "resolve_args \<Rightarrow> string list \<Rightarrow> resolve_result \<times> string list" where
  "onResolve args collectedExternals =
     (if kind args = ''entry-point'' then
        (InNamespace (path args) ''vfs'', collectedExternals)
      else if startsWith ''/'' (path args) then
        (InNamespace (substring_from 1 (path args)) ''vfs'', collectedExternals)
      else if startsWith ''@/'' (path args) then
        (let aliasPath = ''src/'' @ substring_from 2 (path args)
         in (InNamespace aliasPath ''vfs'', collectedExternals))
      else if startsWith ''.'' (path args) then
        (let dir = path_dirname (importer args);
             resolved = path_join [dir, path args];
             cleanPath = (if startsWith ''/'' resolved then substring_from 1 resolved
                          else resolved)
         in (InNamespace cleanPath ''vfs'', collectedExternals))
      else if endsWith ''.css'' (path args) then
        (InNamespace (path args) ''ignore-css'', collectedExternals)
      else
        (ExternalPath (path args), collectedExternals @ [path args]))"

text \<open>
  The request's \<^verbatim>\<open>files\<close> object: the virtual file map, as the list of its
  entries in insertion order. \<^verbatim>\<open>files[k]\<close> is \<open>map_of files k\<close>; a missing key reads
  as \<^verbatim>\<open>undefined\<close> (\<open>None\<close>). A value is falsy when it is \<^verbatim>\<open>undefined\<close> or the
  empty string.
\<close>

type_synonym file_map = "(string \<times> string) list"

fun truthy :: "string option \<Rightarrow> bool" where
  "truthy None = False"
| "truthy (Some s) = (s \<noteq> [])"

text \<open>\<^verbatim>\<open>getLoader\<close> (build.js lines 168--179).\<close>

definition getLoader :: "string \<Rightarrow> string" where
  "getLoader filename =
     (let ext = path_extname filename
      in if ext = ''.js'' then ''jsx''
         else if ext = ''.jsx'' then ''jsx''
         else if ext = ''.ts'' then ''ts''
         else if ext = ''.tsx'' then ''tsx''
         else if ext = ''.css'' then ''css''
         else if ext = ''.json'' then ''json''
         else ''text'')"

text \<open>
  What an \<^verbatim>\<open>onLoad\<close> callback returns: contents with a loader, or a list of error
  texts.
\<close>

datatype load_result =
    Contents string string
  | LoadErrors "string list"

definition extensions :: "string list" where
  "extensions = [''.tsx'', ''.ts'', ''.jsx'', ''.js'', ''.css'', ''.json'']"

text \<open>The probing loop of the \<^verbatim>\<open>vfs\<close> loader (build.js lines 74--81).\<close>

fun probe :: "file_map \<Rightarrow> string \<Rightarrow> string list \<Rightarrow> load_result option" where
  "probe files p [] = None"
| "probe files p (ext # exts) =
     (if truthy (map_of files (p @ ext)) then
        (case map_of files (p @ ext) of
           Some c \<Rightarrow> Some (Contents c (getLoader (p @ ext)))
         | None \<Rightarrow> probe files p exts)
      else probe files p exts)"

text \<open>The \<^verbatim>\<open>vfs\<close> loader (build.js lines 69--89).\<close>

definition onLoad_vfs :: "file_map \<Rightarrow> string \<Rightarrow> load_result" where
  "onLoad_vfs files p =
     (let content = map_of files p
      in if \<not> truthy content then
           (case probe files p extensions of
              Some r \<Rightarrow> r
            | None \<Rightarrow> LoadErrors [''File not found in VFS: '' @ p])
         else
           (case content of
              Some c \<Rightarrow> Contents c (getLoader p)
            | None \<Rightarrow> LoadErrors [''File not found in VFS: '' @ p]))"

text \<open>The \<^verbatim>\<open>ignore-css\<close> loader (build.js lines 65--67).\<close>

definition onLoad_ignore_css :: "string \<Rightarrow> load_result" where
  "onLoad_ignore_css p = Contents [] ''css''"

section \<open>The bundle pipeline of \<^verbatim>\<open>build.js\<close>\<close>

text \<open>
  \<^verbatim>\<open>JSON.stringify\<close> applied to a string: the text in double quotes, with the quote,
  the backslash and the control characters escaped.
\<close>

definition dquote :: char where
  "dquote = CHR 0x22"

definition backslash :: char where
  "backslash = CHR 0x5C"

definition nl :: string where
  "nl = [CHR 0x0A]"

definition hex_digit :: "nat \<Rightarrow> char" where
  "hex_digit n = ''0123456789abcdef'' ! (n mod 16)"

definition json_escape :: "char \<Rightarrow> string" where
  "json_escape c =
     (let n = (of_char c :: nat)
      in if n = 8 then [backslash, CHR ''b'']
         else if n = 9 then [backslash, CHR ''t'']
         else if n = 10 then [backslash, CHR ''n'']
         else if n = 12 then [backslash, CHR ''f'']
         else if n = 13 then [backslash, CHR ''r'']
         else if n = 34 then [backslash, dquote]
         else if n = 92 then [backslash, backslash]
         else if n < 32 then
           [backslash, CHR ''u'', CHR ''0'', CHR ''0'', hex_digit (n div 16), hex_digit n]
         else [c])"

definition JSON_stringify :: "string \<Rightarrow> string" where
  "JSON_stringify s = dquote # concat (map json_escape s) @ [dquote]"

text \<open>
  A JavaScript object built from a list of entries: a later entry with the same key
  replaces an earlier one. This is \<^verbatim>\<open>Object.fromEntries\<close> and the object literal
  with a spread.
\<close>

definition object_of :: "(string \<times> string) list \<Rightarrow> (string \<rightharpoonup> string)" where
  "object_of entries = fold (\<lambda>(k, v) m. m(k \<mapsto> v)) entries Map.empty"

text \<open>
  The \<^verbatim>\<open>define\<close> option (build.js lines 104--112): the fixed development marker
  first, then one entry for each entry of \<^verbatim>\<open>env_vars || {}\<close>.
\<close>

definition define_entries :: "(string \<times> string) list option \<Rightarrow> (string \<times> string) list" where
  "define_entries env_vars =
     (''process.env.NODE_ENV'', dquote # ''development'' @ [dquote]) #
     map (\<lambda>(k, v). (''process.env.'' @ k, JSON_stringify v))
       (case env_vars of None \<Rightarrow> [] | Some e \<Rightarrow> e)"

definition define_option :: "(string \<times> string) list option \<Rightarrow> (string \<rightharpoonup> string)" where
  "define_option env_vars = object_of (define_entries env_vars)"

text \<open>
  The options of the call that matter to the plugin and to the result (build.js lines
  95, 103 and 104--112); the output format, target and file name are left to the
  engine.
\<close>

definition entryPoints :: "string list" where
  "entryPoints = [''src/main.tsx'']"

definition external :: "string list" where
  "external = [''react'', ''react-dom'', ''react-dom/client'']"

record build_options =
  opt_entryPoints :: "string list"
  opt_external :: "string list"
  opt_define :: "string \<rightharpoonup> string"

definition build_options_of :: "(string \<times> string) list option \<Rightarrow> build_options" where
  "build_options_of env_vars =
     \<lparr>opt_entryPoints = entryPoints, opt_external = external,
      opt_define = define_option env_vars\<rparr>"

text \<open>
  The request after \<^verbatim>\<open>JSON.parse\<close> and destructuring. Either property may be
  missing. File contents and substitution values are taken to be strings, as the
  request format has them.
\<close>

record request =
  files :: "file_map option"
  env_vars :: "(string \<times> string) list option"

text \<open>An error message of the bundler, with its optional source location.\<close>

record location =
  loc_file :: string
  loc_line :: nat
  loc_column :: nat
  loc_lineText :: string

record message =
  err_text :: string
  err_location :: "location option"

record output_file =
  out_path :: string
  out_text :: string

datatype build_outcome =
    BuildResolved "output_file list"
  | BuildRejected string "message list"

text \<open>
  The bundler itself (\<^verbatim>\<open>./lib/main.js\<close>) is not part of the sources. What it does
  after the entry module has been loaded is left open: for the options of the call
  and the contents and loader of the entry module, \<open>edges\<close> gives the import edges it
  asks the plugin to resolve, in order, and \<open>finish\<close> its final result; \<open>summary\<close> is
  the message of the error it throws for a list of errors.
\<close>

record engine =
  summary :: "message list \<Rightarrow> string"
  edges :: "build_options \<Rightarrow> string \<Rightarrow> string \<Rightarrow> resolve_args list"
  finish :: "build_options \<Rightarrow> string \<Rightarrow> string \<Rightarrow> resolve_result list \<Rightarrow> build_outcome"

text \<open>The plugin's \<^verbatim>\<open>onResolve\<close> called on a sequence of import edges.\<close>

fun resolve_all :: "resolve_args list \<Rightarrow> string list \<Rightarrow> resolve_result list \<times> string list" where
  "resolve_all [] collectedExternals = ([], collectedExternals)"
| "resolve_all (a # as) collectedExternals =
     (case onResolve a collectedExternals of
        (r, c1) \<Rightarrow> (case resolve_all as c1 of (rs, c2) \<Rightarrow> (r # rs, c2)))"

text \<open>
  The loader that answers for a namespace; the plugin uses \<^verbatim>\<open>vfs\<close> and
  \<^verbatim>\<open>ignore-css\<close> only. With no \<^verbatim>\<open>files\<close> object in the request the \<^verbatim>\<open>vfs\<close>
  callback throws on \<^verbatim>\<open>files[args.path]\<close>, which the bundler reports as an error of
  that load.
\<close>

definition load :: "file_map option \<Rightarrow> string \<Rightarrow> string \<Rightarrow> load_result" where
  "load fs ns p =
     (if ns = ''ignore-css'' then onLoad_ignore_css p
      else
        (case fs of
           None \<Rightarrow>
             LoadErrors [''Cannot read properties of undefined (reading '' @ [CHR 0x27] @ p
                         @ [CHR 0x27] @ '')'']
         | Some fm \<Rightarrow> onLoad_vfs fm p))"

text \<open>
  Modelled from the spec: the bundling engine behind \<^verbatim>\<open>esbuild.build\<close>, which is
  required from \<^verbatim>\<open>./lib/main.js\<close> and missing from the sources. Following section 4.2
  of the specification, the traversal starts at the entry point, resolves it through
  the plugin, loads it through the plugin, and fails with the loader's errors when
  the virtual file is missing; every later import edge is resolved through the plugin
  before it is followed. The program passes one entry point. The engine's own checks
  of the options are not part of this model.
\<close>

definition esbuild_build ::
  "engine \<Rightarrow> build_options \<Rightarrow> file_map option \<Rightarrow> string list
     \<Rightarrow> build_outcome \<times> string list" where
  "esbuild_build eng opts fs collectedExternals =
     (case opt_entryPoints opts of
        [] \<Rightarrow> (finish eng opts [] [] [], collectedExternals)
      | entry # _ \<Rightarrow>
          (case onResolve \<lparr>path = entry, importer = [], kind = ''entry-point''\<rparr>
                  collectedExternals of
             (ExternalPath p, c1) \<Rightarrow> (BuildRejected (summary eng []) [], c1)
           | (InNamespace p ns, c1) \<Rightarrow>
               (case load fs ns p of
                  LoadErrors texts \<Rightarrow>
                    (let errs = map (\<lambda>t. \<lparr>err_text = t, err_location = None\<rparr>) texts
                     in (BuildRejected (summary eng errs) errs, c1))
                | Contents c l \<Rightarrow>
                    (case resolve_all (edges eng opts c l) c1 of
                       (rs, c2) \<Rightarrow> (finish eng opts c l rs, c2)))))"

text \<open>
  The result envelope written to standard output, one field for each property the
  two programs ever set; \<open>None\<close> is a property left out of the object.
\<close>

record envelope =
  res_success :: bool
  res_output :: "string option"
  res_error :: "string option"
  res_externals :: "string list option"
  res_raw :: "string option"

text \<open>Decimal digits of a number, as string concatenation prints it.\<close>

function string_of_nat :: "nat \<Rightarrow> string" where
  "string_of_nat n =
     (if n < 10 then [hex_digit n]
      else string_of_nat (n div 10) @ [hex_digit (n mod 10)])"
  by pat_completeness auto
termination
  by (relation "measure id") auto

text \<open>The formatting of a thrown error (build.js lines 151--161).\<close>

definition format_error :: "message \<Rightarrow> string" where
  "format_error err =
     (case err_location err of
        None \<Rightarrow> err_text err
      | Some loc \<Rightarrow>
          err_text err @ '' at '' @ loc_file loc @ '':'' @ string_of_nat (loc_line loc)
            @ '':'' @ string_of_nat (loc_column loc)
            @ nl @ loc_lineText loc @ nl @ replicate (loc_column loc) CHR '' '' @ ''^'')"

definition errorMsg :: "string \<Rightarrow> message list \<Rightarrow> string" where
  "errorMsg msg errors =
     (if errors \<noteq> [] then join (nl @ nl) (map format_error errors) else msg)"

definition failure :: "string \<Rightarrow> envelope" where
  "failure msg =
     \<lparr>res_success = False, res_output = None, res_error = Some msg,
      res_externals = None, res_raw = None\<rparr>"

text \<open>The loop over the output files (build.js lines 116--125).\<close>

fun pick_outputs :: "output_file list \<Rightarrow> string \<times> string \<Rightarrow> string \<times> string" where
  "pick_outputs [] codes = codes"
| "pick_outputs (f # fs) (jsCode, cssCode) =
     (if endsWith ''.js'' (out_path f) then pick_outputs fs (out_text f, cssCode)
      else if endsWith ''.css'' (out_path f) then pick_outputs fs (jsCode, out_text f)
      else pick_outputs fs (jsCode, cssCode))"

definition injectScript :: "string \<Rightarrow> string" where
  "injectScript escapedCss =
     nl @ ''(function() {'' @ nl
     @ ''    try {'' @ nl
     @ ''        const style = document.createElement('' @ [CHR 0x27] @ ''style''
       @ [CHR 0x27] @ '');'' @ nl
     @ ''        style.textContent = '' @ escapedCss @ '';'' @ nl
     @ ''        document.head.appendChild(style);'' @ nl
     @ ''    } catch(e) {'' @ nl
     @ ''        console.error('' @ [CHR 0x27] @ ''Failed to inject CSS:'' @ [CHR 0x27]
       @ '', e);'' @ nl
     @ ''    }'' @ nl
     @ ''})();'' @ nl"

text \<open>\<^verbatim>\<open>[...new Set(xs)]\<close>: each value once, in the order of first occurrence.\<close>

definition Set_add :: "string list \<Rightarrow> string \<Rightarrow> string list" where
  "Set_add seen x = (if x \<in> set seen then seen else seen @ [x])"

definition new_Set :: "string list \<Rightarrow> string list" where
  "new_Set xs = foldl Set_add [] xs"

definition succeeded :: "output_file list \<Rightarrow> string list \<Rightarrow> envelope" where
  "succeeded outputFiles collectedExternals =
     (case pick_outputs outputFiles ([], []) of
        (jsCode, cssCode) \<Rightarrow>
          \<lparr>res_success = True,
           res_output =
             Some (if cssCode \<noteq> [] then injectScript (JSON_stringify cssCode) @ jsCode
                   else jsCode),
           res_error = None,
           res_externals = Some (new_Set collectedExternals),
           res_raw = None\<rparr>)"

text \<open>
  The handler of the \<^verbatim>\<open>end\<close> event (build.js lines 14--166). \<open>parse\<close> stands for
  \<^verbatim>\<open>JSON.parse\<close> followed by the destructuring: it gives the request, or the message
  of the error thrown. The value is the envelope printed.
\<close>

definition build_main :: "(string \<Rightarrow> string + request) \<Rightarrow> engine \<Rightarrow> string \<Rightarrow> envelope" where
  "build_main parse eng inputData =
     (if trim inputData = [] then failure (errorMsg ''No input data received'' [])
      else
        (case parse inputData of
           Inl msg \<Rightarrow> failure (errorMsg msg [])
         | Inr req \<Rightarrow>
             (case esbuild_build eng (build_options_of (env_vars req)) (files req) [] of
                (BuildRejected msg errors, collectedExternals) \<Rightarrow>
                  failure (errorMsg msg errors)
              | (BuildResolved outputFiles, collectedExternals) \<Rightarrow>
                  succeeded outputFiles collectedExternals)))"

section \<open>The type-validation pipeline of \<^verbatim>\<open>check.js\<close>\<close>

text \<open>
  The line filter and the rewriting of the scope's root (check.js lines 113--137).
\<close>

definition keep_line :: "string \<Rightarrow> bool" where
  "keep_line ln =
     (if trim ln = [] then False
      else if str_includes ''error TS2307:'' ln then False
      else if str_includes ''error TS7016:'' ln then False
      else True)"

definition rewrite_line :: "string \<Rightarrow> string \<Rightarrow> string" where
  "rewrite_line tmpDir ln =
     (if tmpDir \<noteq> [] \<and> str_includes tmpDir ln then replace tmpDir ''vfs:'' ln else ln)"

definition cleanedOutput :: "string \<Rightarrow> string \<Rightarrow> string" where
  "cleanedOutput tmpDir rawOutput =
     join nl (map (rewrite_line tmpDir) (filter keep_line (split CHR 0x0A rawOutput)))"

text \<open>The arguments the checker's process hands to the callback of \<^verbatim>\<open>exec\<close>.\<close>

record exec_result =
  exec_error :: "string option"
  stdout :: string
  stderr :: string

text \<open>\<^verbatim>\<open>stdout || stderr || error.message\<close>.\<close>

definition rawOutput_of :: "exec_result \<Rightarrow> string \<Rightarrow> string" where
  "rawOutput_of r msg =
     (if stdout r \<noteq> [] then stdout r else if stderr r \<noteq> [] then stderr r else msg)"

definition succeeded_with :: "string \<Rightarrow> envelope" where
  "succeeded_with msg =
     \<lparr>res_success = True, res_output = Some msg, res_error = None,
      res_externals = None, res_raw = None\<rparr>"

definition limit_length :: "string \<Rightarrow> string" where
  "limit_length cleaned =
     (if length cleaned > 2000
        then substring_to 2000 cleaned @ nl @ ''... (Status: Truncated due to length)''
      else cleaned)"

text \<open>
  The body of the callback after the clean-up (check.js lines 103--157): the envelope
  it prints.
\<close>

definition report :: "string \<Rightarrow> exec_result \<Rightarrow> envelope" where
  "report tmpDir r =
     (case exec_error r of
        Some msg \<Rightarrow>
          (let rawOutput = rawOutput_of r msg;
               cleaned = cleanedOutput tmpDir rawOutput
           in if trim cleaned = [] then
                succeeded_with ''No critical errors found (ignored missing modules).''
              else
                \<lparr>res_success = False, res_output = None, res_error = Some (limit_length cleaned),
                 res_externals = None, res_raw = Some rawOutput\<rparr>)
      | None \<Rightarrow> succeeded_with ''No errors found.'')"

text \<open>
  The outside world of one request: the two directories the program reads from its
  runtime, and for each file system call whether it throws (\<open>Some\<close> the message).
  \<open>exec_callback\<close> gives the callback's arguments for a command line and a working
  directory.
\<close>

record world =
  tmpdir :: string
  dirname :: string
  mkdtempSync :: "string \<Rightarrow> string + string"
  mkdirSync_error :: "string \<Rightarrow> string option"
  writeFileSync_error :: "string \<Rightarrow> string option"
  existsSync :: "string \<Rightarrow> bool"
  symlinkSync_throws :: bool
  rmSync_throws :: bool
  exec_callback :: "string \<Rightarrow> string \<Rightarrow> exec_result"

text \<open>
  What a request does, in order. \<open>Rm d ok\<close> is a call of \<^verbatim>\<open>rmSync\<close> on \<open>d\<close>, with
  \<open>ok\<close> false when the call throws; \<open>ConsoleLog\<close> is the envelope printed.
\<close>

datatype event =
    Mkdtemp string
  | Mkdir string
  | WriteFile string string
  | Symlink string string
  | Exec string string
  | Rm string bool
  | ConsoleLog envelope

definition quoted :: "string \<Rightarrow> string" where
  "quoted s = dquote # s @ [dquote]"

text \<open>\<^verbatim>\<open>JSON.stringify(tsconfig, null, 2)\<close> for the fixed configuration object.\<close>

definition tsconfig_text :: string where
  "tsconfig_text =
     join nl
       [''{'',
        ''  '' @ [dquote] @ ''compilerOptions'' @ [dquote] @ '': {'',
        ''    '' @ [dquote] @ ''target'' @ [dquote] @ '': '' @ [dquote] @ ''ES2020'' @ [dquote] @ '','',
        ''    '' @ [dquote] @ ''useDefineForClassFields'' @ [dquote] @ '': true,'',
        ''    '' @ [dquote] @ ''lib'' @ [dquote] @ '': ['',
        ''      '' @ [dquote] @ ''ES2020'' @ [dquote] @ '','',
        ''      '' @ [dquote] @ ''DOM'' @ [dquote] @ '','',
        ''      '' @ [dquote] @ ''DOM.Iterable'' @ [dquote],
        ''    ],'',
        ''    '' @ [dquote] @ ''module'' @ [dquote] @ '': '' @ [dquote] @ ''ESNext'' @ [dquote] @ '','',
        ''    '' @ [dquote] @ ''skipLibCheck'' @ [dquote] @ '': true,'',
        ''    '' @ [dquote] @ ''moduleResolution'' @ [dquote] @ '': '' @ [dquote] @ ''bundler'' @ [dquote] @ '','',
        ''    '' @ [dquote] @ ''allowImportingTsExtensions'' @ [dquote] @ '': true,'',
        ''    '' @ [dquote] @ ''resolveJsonModule'' @ [dquote] @ '': true,'',
        ''    '' @ [dquote] @ ''isolatedModules'' @ [dquote] @ '': true,'',
        ''    '' @ [dquote] @ ''noEmit'' @ [dquote] @ '': true,'',
        ''    '' @ [dquote] @ ''jsx'' @ [dquote] @ '': '' @ [dquote] @ ''react-jsx'' @ [dquote] @ '','',
        ''    '' @ [dquote] @ ''strict'' @ [dquote] @ '': true,'',
        ''    '' @ [dquote] @ ''noImplicitAny'' @ [dquote] @ '': false,'',
        ''    '' @ [dquote] @ ''noUnusedLocals'' @ [dquote] @ '': false,'',
        ''    '' @ [dquote] @ ''noUnusedParameters'' @ [dquote] @ '': false,'',
        ''    '' @ [dquote] @ ''noFallthroughCasesInSwitch'' @ [dquote] @ '': true,'',
        ''    '' @ [dquote] @ ''allowJs'' @ [dquote] @ '': true,'',
        ''    '' @ [dquote] @ ''checkJs'' @ [dquote] @ '': false'',
        ''  },'',
        ''  '' @ [dquote] @ ''include'' @ [dquote] @ '': ['',
        ''    '' @ [dquote] @ ''src'' @ [dquote],
        ''  ]'',
        ''}'']"

text \<open>
  \<^verbatim>\<open>path.resolve(__dirname, rel)\<close> for the absolute \<^verbatim>\<open>__dirname\<close> and a relative
  second argument.
\<close>

definition path_resolve :: "string \<Rightarrow> string \<Rightarrow> string" where
  "path_resolve base rel = ''/'' @ normalizeString (base @ ''/'' @ rel) False"

text \<open>The loop that writes the virtual files (check.js lines 25--34).\<close>

fun write_files :: "world \<Rightarrow> string \<Rightarrow> file_map \<Rightarrow> event list \<times> string option" where
  "write_files w tmpDir [] = ([], None)"
| "write_files w tmpDir ((filepath, content) # rest) =
     (let fullPath = path_join [tmpDir, filepath];
          dir = path_dirname fullPath
      in case mkdirSync_error w dir of
           Some msg \<Rightarrow> ([], Some msg)
         | None \<Rightarrow>
             (case writeFileSync_error w fullPath of
                Some msg \<Rightarrow> ([Mkdir dir], Some msg)
              | None \<Rightarrow>
                  (case write_files w tmpDir rest of
                     (evs, r) \<Rightarrow> (Mkdir dir # WriteFile fullPath content # evs, r))))"

text \<open>\<^verbatim>\<open>try { fs.rmSync(tmpDir, ...) } catch (_) {}\<close>.\<close>

definition cleanup :: "world \<Rightarrow> string \<Rightarrow> event list" where
  "cleanup w tmpDir = [Rm tmpDir (\<not> rmSync_throws w)]"

text \<open>The \<^verbatim>\<open>catch\<close> block (check.js lines 160--165).\<close>

definition catch_handler :: "world \<Rightarrow> string option \<Rightarrow> string \<Rightarrow> event list" where
  "catch_handler w tmpDir msg =
     (case tmpDir of
        None \<Rightarrow> []
      | Some d \<Rightarrow> (if d \<noteq> [] then cleanup w d else []))
     @ [ConsoleLog (failure msg)]"

text \<open>
  From the link of \<^verbatim>\<open>node_modules\<close> to the end of the callback of \<^verbatim>\<open>exec\<close>
  (check.js lines 90--158).
\<close>

definition run_tsc :: "world \<Rightarrow> string \<Rightarrow> string \<Rightarrow> event list" where
  "run_tsc w tmpDir tscPath =
     (let cmd = ''node '' @ quoted tscPath @ '' -p . --noEmit --pretty false''
      in (if symlinkSync_throws w then []
          else [Symlink (path_join [dirname w, ''node_modules''])
                        (path_join [tmpDir, ''node_modules''])])
         @ [Exec cmd tmpDir]
         @ cleanup w tmpDir
         @ [ConsoleLog (report tmpDir (exec_callback w cmd tmpDir))])"

text \<open>The look-up of the checker (check.js lines 70--86).\<close>

definition find_and_run :: "world \<Rightarrow> string \<Rightarrow> event list" where
  "find_and_run w tmpDir =
     (let tscPath = path_resolve (dirname w) ''node_modules/.bin/tsc''
      in if \<not> existsSync w tscPath then
           (let directPath = path_resolve (dirname w) ''node_modules/typescript/bin/tsc''
            in if existsSync w directPath then run_tsc w tmpDir directPath
               else
                 [ConsoleLog (succeeded_with
                    (''Warning: TypeScript compiler (tsc) not found in local_compiler. ''
                     @ ''Skipping strict type check.''))]
                 @ cleanup w tmpDir)
         else run_tsc w tmpDir tscPath)"

text \<open>
  The handler of the \<^verbatim>\<open>end\<close> event (check.js lines 12--166), as the list of the
  events of one request. The callback of \<^verbatim>\<open>exec\<close> runs once, when the process ends.
\<close>

definition check_main :: "(string \<Rightarrow> string + request) \<Rightarrow> world \<Rightarrow> string \<Rightarrow> event list" where
  "check_main parse w inputData =
     (if trim inputData = [] then catch_handler w None ''No input data received''
      else
        (case parse inputData of
           Inl msg \<Rightarrow> catch_handler w None msg
         | Inr req \<Rightarrow>
             (case mkdtempSync w (path_join [tmpdir w, ''nekro-check-'']) of
                Inl msg \<Rightarrow> catch_handler w None msg
              | Inr tmpDir \<Rightarrow>
                  Mkdtemp tmpDir #
                  (case files req of
                     None \<Rightarrow>
                       catch_handler w (Some tmpDir)
                         ''Cannot convert undefined or null to object''
                   | Some fm \<Rightarrow>
                       (case write_files w tmpDir fm of
                          (evs, Some msg) \<Rightarrow> evs @ catch_handler w (Some tmpDir) msg
                        | (evs, None) \<Rightarrow>
                            evs @
                            (let config = path_join [tmpDir, ''tsconfig.json'']
                             in case writeFileSync_error w config of
                                  Some msg \<Rightarrow> catch_handler w (Some tmpDir) msg
                                | None \<Rightarrow>
                                    WriteFile config tsconfig_text
                                    # find_and_run w tmpDir))))))"

text \<open>The envelopes a request prints, in order.\<close>

fun responses :: "event list \<Rightarrow> envelope list" where
  "responses [] = []"
| "responses (ConsoleLog e # evs) = e # responses evs"
| "responses (_ # evs) = responses evs"

section \<open>Predicates used in the statements\<close>

text \<open>
  A path segment: not empty and free of slashes. In a normalised path the segment
  \<^verbatim>\<open>..\<close> can only stand in a leading run.
\<close>

definition plain_segment :: "string \<Rightarrow> bool" where
  "plain_segment s = (s \<noteq> [] \<and> CHR ''/'' \<notin> set s)"

definition dotdot_leading :: "string list \<Rightarrow> bool" where
  "dotdot_leading segs = (''..'' \<notin> set (dropWhile (\<lambda>s. s = ''..'') segs))"

text \<open>A resolution that marks its path external, and the specifiers so marked among
  a sequence of import edges, in order and with repetitions.\<close>

definition is_external :: "resolve_result \<Rightarrow> bool" where
  "is_external r = (case r of ExternalPath p \<Rightarrow> True | InNamespace p ns \<Rightarrow> False)"

definition bare_specifiers :: "resolve_args list \<Rightarrow> string list" where
  "bare_specifiers calls = map path (filter (\<lambda>a. is_external (fst (onResolve a []))) calls)"

text \<open>
  An envelope is well formed when exactly one of \<^verbatim>\<open>output\<close> and \<^verbatim>\<open>error\<close> is
  present: \<^verbatim>\<open>output\<close> with \<^verbatim>\<open>success: true\<close>, \<^verbatim>\<open>error\<close> with \<^verbatim>\<open>success: false\<close>.
\<close>

definition well_formed :: "envelope \<Rightarrow> bool" where
  "well_formed e =
     ((res_success e \<and> res_output e \<noteq> None \<and> res_error e = None)
      \<or> (\<not> res_success e \<and> res_error e \<noteq> None \<and> res_output e = None))"

text \<open>
  The order of clean-up and response in a list of events: \<open>live\<close> is the scope
  directory created and not yet passed to \<^verbatim>\<open>rmSync\<close>. The predicate holds when no
  envelope is printed while a scope is live.
\<close>

fun deleted_before_response :: "string option \<Rightarrow> event list \<Rightarrow> bool" where
  "deleted_before_response live [] = True"
| "deleted_before_response live (Mkdtemp d # evs) = deleted_before_response (Some d) evs"
| "deleted_before_response live (Rm d ok # evs) =
     deleted_before_response (if live = Some d then None else live) evs"
| "deleted_before_response live (ConsoleLog e # evs) =
     (live = None \<and> deleted_before_response live evs)"
| "deleted_before_response live (_ # evs) = deleted_before_response live evs"

section \<open>Concrete requests\<close>

text \<open>
  A request with one source file and its text on standard input; a request without
  the entry file; a scope directory; a world in which neither location of the checker
  exists; outputs of the checker; and two stand-ins for the bundling engine.
\<close>

definition one_file :: request where
  "one_file = \<lparr>files = Some [(''src/main.tsx'', ''export {}'')], env_vars = None\<rparr>"

definition request_text :: string where
  "request_text =
     ''{'' @ quoted ''files'' @ '':{'' @ quoted ''src/main.tsx'' @ '':'' @ quoted ''export {}''
     @ ''}}''"

definition no_entry_text :: string where
  "no_entry_text =
     ''{'' @ quoted ''files'' @ '':{'' @ quoted ''src/App.tsx'' @ '':'' @ quoted ''export {}''
     @ ''}}''"

definition no_entry :: request where
  "no_entry = \<lparr>files = Some [(''src/App.tsx'', ''export {}'')], env_vars = None\<rparr>"

definition no_checker :: world where
  "no_checker =
     \<lparr>tmpdir = ''/tmp'', dirname = ''/app/local_compiler'',
      mkdtempSync = (\<lambda>prefix. Inr (prefix @ ''Ab12Cd'')),
      mkdirSync_error = (\<lambda>_. None), writeFileSync_error = (\<lambda>_. None),
      existsSync = (\<lambda>_. False), symlinkSync_throws = False, rmSync_throws = False,
      exec_callback = (\<lambda>_ _. \<lparr>exec_error = None, stdout = [], stderr = []\<rparr>)\<rparr>"

definition scope_root :: string where
  "scope_root = ''/tmp/nekro-check-Ab12Cd''"

definition noise_only :: exec_result where
  "noise_only =
     \<lparr>exec_error = Some ''Command failed: node tsc -p . --noEmit --pretty false'',
      stdout = ''src/main.tsx(1,20): error TS2307: Cannot find module framer-motion.'' @ nl
             @ ''src/main.tsx(2,17): error TS7016: Could not find a declaration file for module pixi.''
             @ nl,
      stderr = []\<rparr>"

definition one_genuine_error :: exec_result where
  "one_genuine_error =
     \<lparr>exec_error = Some ''Command failed: node tsc -p . --noEmit --pretty false'',
      stdout = ''src/main.tsx(1,20): error TS2307: Cannot find module framer-motion.'' @ nl
             @ ''src/main.tsx(4,7): error TS2322: Type string is not assignable to type number.''
             @ nl,
      stderr = []\<rparr>"

definition casing_error :: exec_result where
  "casing_error =
     \<lparr>exec_error = Some ''Command failed: node tsc -p . --noEmit --pretty false'',
      stdout = ''src/main.tsx(1,19): error TS1261: Already included file name ''
             @ [CHR 0x27] @ ''/tmp/nekro-check-Ab12Cd/src/App.tsx'' @ [CHR 0x27]
             @ '' differs from file name ''
             @ [CHR 0x27] @ ''/tmp/nekro-check-Ab12Cd/src/app.tsx'' @ [CHR 0x27]
             @ '' only in casing.'' @ nl,
      stderr = []\<rparr>"

definition long_output :: exec_result where
  "long_output =
     \<lparr>exec_error = Some ''Command failed: node tsc -p . --noEmit --pretty false'',
      stdout = replicate 2500 CHR ''x'', stderr = []\<rparr>"

definition idle_engine :: engine where
  "idle_engine =
     \<lparr>summary = (\<lambda>errs. ''Build failed''),
      edges = (\<lambda>opts c l. []),
      finish = (\<lambda>opts c l rs. BuildResolved [])\<rparr>"

definition two_importers :: engine where
  "two_importers =
     \<lparr>summary = (\<lambda>errs. ''Build failed''),
      edges = (\<lambda>opts c l.
        [\<lparr>path = ''react'', importer = ''src/main.tsx'', kind = ''import-statement''\<rparr>,
         \<lparr>path = ''./App'', importer = ''src/main.tsx'', kind = ''import-statement''\<rparr>,
         \<lparr>path = ''react'', importer = ''src/App.tsx'', kind = ''import-statement''\<rparr>,
         \<lparr>path = ''lodash'', importer = ''src/App.tsx'', kind = ''import-statement''\<rparr>,
         \<lparr>path = ''./App.css'', importer = ''src/App.tsx'', kind = ''import-statement''\<rparr>,
         \<lparr>path = ''react-dom/client'', importer = ''src/main.tsx'',
          kind = ''import-statement''\<rparr>]),
      finish = (\<lambda>opts c l rs. BuildResolved [\<lparr>out_path = ''bundle.js'', out_text = ''export {}''\<rparr>])\<rparr>"

section \<open>Path normalisation\<close>

lemma split_no_sep: "s \<in> set (split c xs) \<Longrightarrow> c \<notin> set s"
proof (induction xs arbitrary: s)
  case Nil
  then show ?case by simp
next
  case (Cons x xs)
  then show ?case
    by (cases "split c xs") (auto split: if_splits)
qed

lemma normalize_segments_plain:
  "list_all plain_segment res \<Longrightarrow> list_all (\<lambda>s. CHR ''/'' \<notin> set s) segs \<Longrightarrow>
   list_all plain_segment (normalize_segments a res segs)"
proof (induction segs arbitrary: res)
  case Nil
  then show ?case by simp
next
  case (Cons seg segs)
  have b: "list_all plain_segment (butlast res)"
    using Cons.prems(1) by (auto simp: list_all_iff dest: in_set_butlastD)
  have d: "list_all plain_segment (res @ [''..''])"
    using Cons.prems(1) by (auto simp: list_all_iff plain_segment_def)
  have s: "seg \<noteq> [] \<Longrightarrow> list_all plain_segment (res @ [seg])"
    using Cons.prems by (auto simp: list_all_iff plain_segment_def)
  from Cons.prems(2) have t: "list_all (\<lambda>s. CHR ''/'' \<notin> set s) segs" by simp
  show ?case
    using Cons.IH[OF Cons.prems(1) t] Cons.IH[OF b t] Cons.IH[OF d t] Cons.IH[OF s t]
    by auto
qed

lemma startsWith_slash: "startsWith ''/'' s \<longleftrightarrow> (\<exists>q. s = CHR ''/'' # q)"
  by (cases s) (auto simp: startsWith_def)

lemma startsWith_slash_append:
  "s \<noteq> [] \<Longrightarrow> startsWith ''/'' (s @ t) = startsWith ''/'' s"
  by (cases s) (simp_all add: startsWith_slash)

lemma join_Cons: "join sep (l # ls) = l @ (if ls = [] then [] else sep @ join sep ls)"
  by (cases ls) simp_all

lemma join_plain_head:
  "list_all plain_segment segs \<Longrightarrow> \<not> startsWith ''/'' (join ''/'' segs)"
proof (cases segs)
  case Nil
  then show ?thesis by (simp add: startsWith_def)
next
  case (Cons l ls)
  assume "list_all plain_segment segs"
  with Cons obtain c l' where "l = c # l'" "c \<noteq> CHR ''/''"
    by (cases l) (auto simp: plain_segment_def)
  with Cons show ?thesis
    by (simp add: join_Cons startsWith_slash)
qed

lemma join_plain_not_Nil:
  "list_all plain_segment segs \<Longrightarrow> segs \<noteq> [] \<Longrightarrow> join ''/'' segs \<noteq> []"
  by (cases segs) (auto simp: join_Cons plain_segment_def)

lemma normalizeString_head: "\<not> startsWith ''/'' (normalizeString p a)"
proof -
  have "list_all (\<lambda>s. CHR ''/'' \<notin> set s) (split CHR ''/'' p)"
    by (simp add: list_all_iff split_no_sep)
  then have "list_all plain_segment (normalize_segments a [] (split CHR ''/'' p))"
    by (rule normalize_segments_plain[rotated]) simp
  then show ?thesis
    unfolding normalizeString_def by (rule join_plain_head)
qed

lemma normalize_single_root:
  assumes "path_normalize p = CHR ''/'' # q"
  shows "\<not> startsWith ''/'' q"
proof -
  note h = normalizeString_head[of p "hd p \<noteq> CHR ''/''"]
  show ?thesis
  proof (cases "normalizeString p (hd p \<noteq> CHR ''/'') = []")
    case True
    with assms show ?thesis
      by (auto simp: path_normalize_def Let_def startsWith_def split: if_splits)
  next
    case False
    then obtain c n where n: "normalizeString p (hd p \<noteq> CHR ''/'') = c # n"
      by (cases "normalizeString p (hd p \<noteq> CHR ''/'')") auto
    with h have c: "c \<noteq> CHR ''/''"
      by (simp add: startsWith_slash)
    from assms n c show ?thesis
      by (auto simp: path_normalize_def Let_def startsWith_slash split: if_splits)
  qed
qed

lemma path_join_single_root:
  "path_join args = CHR ''/'' # q \<Longrightarrow> \<not> startsWith ''/'' q"
  by (auto simp: path_join_def Let_def startsWith_def dest: normalize_single_root
           split: if_splits)

lemma dotdot_leading_snoc:
  "dotdot_leading res \<Longrightarrow> seg \<noteq> ''..'' \<Longrightarrow> dotdot_leading (res @ [seg])"
  by (auto simp: dotdot_leading_def dropWhile_append)

lemma dotdot_leading_butlast:
  "dotdot_leading res \<Longrightarrow> dotdot_leading (butlast res)"
proof (induction res)
  case Nil
  then show ?case by simp
next
  case (Cons a res)
  then show ?case
    by (auto simp: dotdot_leading_def dest: in_set_butlastD split: if_splits)
qed

lemma last_dropWhile_keep:
  "dropWhile P xs \<noteq> [] \<Longrightarrow> last (dropWhile P xs) = last xs"
  by (induction xs) (auto split: if_splits)

lemma dotdot_leading_all:
  assumes "dotdot_leading res" "res = [] \<or> last res = ''..''"
  shows "\<forall>s\<in>set res. s = ''..''"
proof (rule ccontr)
  assume "\<not> ?thesis"
  then have ne: "dropWhile (\<lambda>s. s = ''..'') res \<noteq> []"
    by simp
  then have "res \<noteq> []" by auto
  with assms(2) have l: "last res = ''..''" by simp
  from ne have "last (dropWhile (\<lambda>s. s = ''..'') res) = last res"
    by (rule last_dropWhile_keep)
  with ne l have "''..'' \<in> set (dropWhile (\<lambda>s. s = ''..'') res)"
    by (metis last_in_set)
  with assms(1) show False by (simp add: dotdot_leading_def)
qed

lemma dotdot_leading_snoc_dotdot:
  assumes "dotdot_leading res" "res = [] \<or> last res = ''..''"
  shows "dotdot_leading (res @ [''..''])"
proof -
  from dotdot_leading_all[OF assms] have "dropWhile (\<lambda>s. s = ''..'') (res @ [''..'']) = []"
    by simp
  then show ?thesis by (simp add: dotdot_leading_def)
qed

lemma normalize_segments_dotdot:
  "dotdot_leading res \<Longrightarrow> dotdot_leading (normalize_segments a res segs)"
proof (induction segs arbitrary: res)
  case Nil
  then show ?case by simp
next
  case (Cons seg segs)
  show ?case
    using Cons.IH[OF Cons.prems] Cons.IH[OF dotdot_leading_butlast[OF Cons.prems]]
      Cons.IH[OF dotdot_leading_snoc[OF Cons.prems, of seg]]
      Cons.IH[OF dotdot_leading_snoc_dotdot[OF Cons.prems]]
    by auto
qed

lemma normalize_segments_shape:
  "list_all plain_segment (normalize_segments a [] (split CHR ''/'' p))
   \<and> dotdot_leading (normalize_segments a [] (split CHR ''/'' p))"
proof -
  have "list_all (\<lambda>s. CHR ''/'' \<notin> set s) (split CHR ''/'' p)"
    by (simp add: list_all_iff split_no_sep)
  then have "list_all plain_segment (normalize_segments a [] (split CHR ''/'' p))"
    by (rule normalize_segments_plain[rotated]) simp
  moreover have "dotdot_leading (normalize_segments a [] (split CHR ''/'' p))"
    by (rule normalize_segments_dotdot) (simp add: dotdot_leading_def)
  ultimately show ?thesis by simp
qed

lemma single_dot_shape: "list_all plain_segment [''.''] \<and> dotdot_leading [''.'']"
  by (simp add: plain_segment_def dotdot_leading_def)

lemma normalize_shape:
  "\<exists>segs. list_all plain_segment segs \<and> dotdot_leading segs
     \<and> path_normalize p \<in> {join ''/'' segs, join ''/'' segs @ ''/'',
                       ''/'' @ join ''/'' segs, ''/'' @ join ''/'' segs @ ''/''}"
proof -
  let ?segs = "normalize_segments (hd p \<noteq> CHR ''/'') [] (split CHR ''/'' p)"
  note sh = normalize_segments_shape[of "hd p \<noteq> CHR ''/''" p]
  have "(path_normalize p = ''.'' \<or> path_normalize p = ''./'')
    \<or> path_normalize p = ''/''
    \<or> path_normalize p \<in> {join ''/'' ?segs, join ''/'' ?segs @ ''/'',
                       ''/'' @ join ''/'' ?segs, ''/'' @ join ''/'' ?segs @ ''/''}"
    by (simp add: path_normalize_def Let_def normalizeString_def)
  then consider (dot) "path_normalize p = ''.'' \<or> path_normalize p = ''./''"
    | (root) "path_normalize p = ''/''"
    | (segs) "path_normalize p \<in> {join ''/'' ?segs, join ''/'' ?segs @ ''/'',
                       ''/'' @ join ''/'' ?segs, ''/'' @ join ''/'' ?segs @ ''/''}"
    by blast
  then show ?thesis
  proof cases
    case dot
    then have "path_normalize p \<in> {join ''/'' [''.''], join ''/'' [''.''] @ ''/'',
                       ''/'' @ join ''/'' [''.''], ''/'' @ join ''/'' [''.''] @ ''/''}"
      by auto
    with single_dot_shape show ?thesis by blast
  next
    case root
    then have "path_normalize p \<in> {join ''/'' [], join ''/'' [] @ ''/'',
                       ''/'' @ join ''/'' [], ''/'' @ join ''/'' [] @ ''/''}"
      by simp
    moreover have "list_all plain_segment [] \<and> dotdot_leading []"
      by (simp add: dotdot_leading_def)
    ultimately show ?thesis by blast
  next
    case segs
    with sh show ?thesis by blast
  qed
qed

lemma path_join_shape:
  "\<exists>segs. list_all plain_segment segs \<and> dotdot_leading segs
     \<and> path_join args \<in> {join ''/'' segs, join ''/'' segs @ ''/'',
                       ''/'' @ join ''/'' segs, ''/'' @ join ''/'' segs @ ''/''}"
proof (cases "filter (\<lambda>a. a \<noteq> []) args = []")
  case True
  then have "path_join args \<in> {join ''/'' [''.''], join ''/'' [''.''] @ ''/'',
                       ''/'' @ join ''/'' [''.''], ''/'' @ join ''/'' [''.''] @ ''/''}"
    by (simp add: path_join_def)
  with single_dot_shape show ?thesis by blast
next
  case False
  then have "path_join args = path_normalize (join ''/'' (filter (\<lambda>a. a \<noteq> []) args))"
    by (simp add: path_join_def)
  with normalize_shape show ?thesis by simp
qed

lemma strip_root_shape:
  fixes resolved :: string
  defines "cleanPath \<equiv> (if startsWith ''/'' resolved then substring_from 1 resolved else resolved)"
  assumes "resolved = path_join args"
  shows "\<exists>segs. list_all plain_segment segs \<and> dotdot_leading segs
     \<and> cleanPath \<in> {join ''/'' segs, join ''/'' segs @ ''/''}"
proof -
  from path_join_shape[of args] assms(2) obtain segs where
    s: "list_all plain_segment segs" "dotdot_leading segs"
    and r: "resolved \<in> {join ''/'' segs, join ''/'' segs @ ''/'',
                       ''/'' @ join ''/'' segs, ''/'' @ join ''/'' segs @ ''/''}"
    by auto
  have n: "\<not> startsWith ''/'' (join ''/'' segs)"
    using s(1) by (rule join_plain_head)
  have n2: "segs \<noteq> [] \<Longrightarrow> \<not> startsWith ''/'' (join ''/'' segs @ ''/'')"
    using n join_plain_not_Nil[OF s(1)] by (simp add: startsWith_slash_append)
  show ?thesis
  proof (cases "segs = []")
    case True
    with r have "resolved \<in> {[], ''/'', ''//''}" by auto
    moreover have "resolved \<noteq> ''//''"
      using path_join_single_root[of args "''/''"] assms(2) by (auto simp: startsWith_def)
    ultimately have "cleanPath \<in> {join ''/'' [], join ''/'' [] @ ''/''}"
      by (auto simp: cleanPath_def startsWith_def substring_from_def)
    with True s show ?thesis by blast
  next
    case False
    with r n n2 have "cleanPath \<in> {join ''/'' segs, join ''/'' segs @ ''/''}"
      by (auto simp: cleanPath_def startsWith_slash substring_from_def)
    with s show ?thesis by blast
  qed
qed

section \<open>The resolver\<close>

text \<open>
  Claim C1. The object \<^verbatim>\<open>onResolve\<close> returns depends on the arguments of the call only,
  not on the externals collected so far, and the callback has no branch that throws.
  The branches are taken in a fixed order: an entry point keeps its path in the
  \<^verbatim>\<open>vfs\<close> namespace whatever the path looks like; otherwise a leading \<^verbatim>\<open>/\<close> is
  stripped, a leading \<^verbatim>\<open>@/\<close> becomes \<^verbatim>\<open>src/\<close>, and a specifier starting with a dot
  is joined to the importer's directory, the result losing its leading slash: the key
  never starts with a slash and is a slash-separated list of non-empty segments in
  which \<^verbatim>\<open>..\<close> survives only as a leading run. A specifier matching none of these
  goes to the \<^verbatim>\<open>ignore-css\<close> namespace when it ends in \<^verbatim>\<open>.css\<close> and is external
  otherwise.
\<close>

theorem onResolve_classification:
  fixes args :: resolve_args and ce ce' :: "string list"
  defines "r \<equiv> fst (onResolve args ce)"
  shows "fst (onResolve args ce') = r
    \<and> (kind args = ''entry-point'' \<longrightarrow> r = InNamespace (path args) ''vfs'')
    \<and> (kind args \<noteq> ''entry-point'' \<longrightarrow>
         (\<forall>rest. path args = ''/'' @ rest \<longrightarrow> r = InNamespace rest ''vfs'')
       \<and> (\<forall>rest. path args = ''@/'' @ rest \<longrightarrow> r = InNamespace (''src/'' @ rest) ''vfs'')
       \<and> (startsWith ''.'' (path args) \<longrightarrow>
            (\<exists>key. r = InNamespace key ''vfs'' \<and> \<not> startsWith ''/'' key
              \<and> path_join [path_dirname (importer args), path args] \<in> {key, ''/'' @ key}
              \<and> (\<exists>segs. list_all plain_segment segs \<and> dotdot_leading segs
                    \<and> key \<in> {join ''/'' segs, join ''/'' segs @ ''/''})))
       \<and> (\<not> startsWith ''/'' (path args) \<and> \<not> startsWith ''@/'' (path args)
            \<and> \<not> startsWith ''.'' (path args) \<longrightarrow>
            r = (if endsWith ''.css'' (path args) then InNamespace (path args) ''ignore-css''
                 else ExternalPath (path args))))"
proof -
  have pure: "fst (onResolve args ce') = r"
    by (simp add: r_def onResolve_def Let_def)
  have entry: "kind args = ''entry-point'' \<Longrightarrow> r = InNamespace (path args) ''vfs''"
    by (simp add: r_def onResolve_def)
  have rooted: "r = InNamespace rest ''vfs''"
    if "kind args \<noteq> ''entry-point''" "path args = ''/'' @ rest" for rest
    using that by (simp add: r_def onResolve_def startsWith_def substring_from_def)
  have aliased: "r = InNamespace (''src/'' @ rest) ''vfs''"
    if "kind args \<noteq> ''entry-point''" "path args = ''@/'' @ rest" for rest
    using that by (simp add: r_def onResolve_def startsWith_def substring_from_def)
  have rel: "\<exists>key. r = InNamespace key ''vfs'' \<and> \<not> startsWith ''/'' key
              \<and> path_join [path_dirname (importer args), path args] \<in> {key, ''/'' @ key}
              \<and> (\<exists>segs. list_all plain_segment segs \<and> dotdot_leading segs
                    \<and> key \<in> {join ''/'' segs, join ''/'' segs @ ''/''})"
    if k: "kind args \<noteq> ''entry-point''" and d: "startsWith ''.'' (path args)"
  proof -
    let ?j = "path_join [path_dirname (importer args), path args]"
    let ?key = "if startsWith ''/'' ?j then substring_from 1 ?j else ?j"
    from d have n: "\<not> startsWith ''/'' (path args)" "\<not> startsWith ''@/'' (path args)"
      by (cases "path args"; simp add: startsWith_def)+
    from k d n have r: "r = InNamespace ?key ''vfs''"
      by (simp add: r_def onResolve_def Let_def)
    have shape: "\<exists>segs. list_all plain_segment segs \<and> dotdot_leading segs
                    \<and> ?key \<in> {join ''/'' segs, join ''/'' segs @ ''/''}"
      by (rule strip_root_shape) simp
    have "\<not> startsWith ''/'' ?key \<and> ?j \<in> {?key, ''/'' @ ?key}"
    proof (cases "startsWith ''/'' ?j")
      case True
      then obtain q where q: "?j = CHR ''/'' # q"
        by (auto simp: startsWith_slash)
      then have "\<not> startsWith ''/'' q"
        by (rule path_join_single_root)
      with q show ?thesis
        by (simp add: substring_from_def startsWith_slash)
    next
      case False
      then show ?thesis by simp
    qed
    with r shape show ?thesis by blast
  qed
  have bare: "r = (if endsWith ''.css'' (path args) then InNamespace (path args) ''ignore-css''
                 else ExternalPath (path args))"
    if "kind args \<noteq> ''entry-point''" "\<not> startsWith ''/'' (path args)"
       "\<not> startsWith ''@/'' (path args)" "\<not> startsWith ''.'' (path args)"
    using that by (simp add: r_def onResolve_def)
  from pure entry rooted aliased rel bare show ?thesis
    by blast
qed

theorem onResolve_classification_witness:
  "fst (onResolve \<lparr>path = ''src/main.tsx'', importer = [], kind = ''entry-point''\<rparr> [])
     = InNamespace ''src/main.tsx'' ''vfs''
   \<and> fst (onResolve \<lparr>path = ''/src/App.tsx'', importer = ''src/main.tsx'',
                       kind = ''import-statement''\<rparr> [])
     = InNamespace ''src/App.tsx'' ''vfs''
   \<and> fst (onResolve \<lparr>path = ''@/utils/x'', importer = ''src/main.tsx'',
                       kind = ''import-statement''\<rparr> [''react''])
     = InNamespace ''src/utils/x'' ''vfs''
   \<and> fst (onResolve \<lparr>path = ''../d'', importer = ''a/b/c.ts'',
                       kind = ''import-statement''\<rparr> [])
     = InNamespace ''a/d'' ''vfs''
   \<and> fst (onResolve \<lparr>path = ''normalize.css'', importer = ''src/main.tsx'',
                       kind = ''import-statement''\<rparr> [])
     = InNamespace ''normalize.css'' ''ignore-css''
   \<and> fst (onResolve \<lparr>path = ''react'', importer = ''src/main.tsx'',
                       kind = ''import-statement''\<rparr> [])
     = ExternalPath ''react''"
proof -
  let ?imp = "\<lambda>p i. \<lparr>path = p, importer = i, kind = ''import-statement''\<rparr>"
  have entry: "fst (onResolve \<lparr>path = ''src/main.tsx'', importer = [], kind = ''entry-point''\<rparr> [])
     = InNamespace ''src/main.tsx'' ''vfs''"
    using onResolve_classification
      [of "\<lparr>path = ''src/main.tsx'', importer = [], kind = ''entry-point''\<rparr>" "[]" "[]"]
    by simp
  have rooted: "fst (onResolve (?imp ''/src/App.tsx'' ''src/main.tsx'') []) = InNamespace ''src/App.tsx'' ''vfs''"
    using onResolve_classification[of "?imp ''/src/App.tsx'' ''src/main.tsx''" "[]" "[]"]
    by simp
  have aliased: "fst (onResolve (?imp ''@/utils/x'' ''src/main.tsx'') [''react''])
      = InNamespace ''src/utils/x'' ''vfs''"
    using onResolve_classification[of "?imp ''@/utils/x'' ''src/main.tsx''" "[''react'']" "[]"]
    by simp
  have j: "path_join [path_dirname ''a/b/c.ts'', ''../d''] = ''a/d''"
    by (simp add: path_join_def path_dirname_def path_normalize_def normalizeString_def)
  have rel: "fst (onResolve (?imp ''../d'' ''a/b/c.ts'') []) = InNamespace ''a/d'' ''vfs''"
    using onResolve_classification[of "?imp ''../d'' ''a/b/c.ts''" "[]" "[]"] j
    by (auto simp: startsWith_def)
  have css: "fst (onResolve (?imp ''normalize.css'' ''src/main.tsx'') [])
      = InNamespace ''normalize.css'' ''ignore-css''"
    using onResolve_classification[of "?imp ''normalize.css'' ''src/main.tsx''" "[]" "[]"]
    by (simp add: startsWith_def endsWith_def)
  have bare: "fst (onResolve (?imp ''react'' ''src/main.tsx'') []) = ExternalPath ''react''"
    using onResolve_classification[of "?imp ''react'' ''src/main.tsx''" "[]" "[]"]
    by (simp add: startsWith_def endsWith_def)
  from entry rooted aliased rel css bare show ?thesis by simp
qed

section \<open>The loader\<close>

lemma request_text_not_blank: "trim request_text \<noteq> []"
  by (simp add: request_text_def trim_def is_ws_def quoted_def dquote_def)

lemma no_entry_text_not_blank: "trim no_entry_text \<noteq> []"
  by (simp add: no_entry_text_def trim_def is_ws_def quoted_def dquote_def)

lemma probe_find:
  assumes "\<forall>k c. map_of fm k = Some c \<longrightarrow> c \<noteq> []"
  shows "probe fm p exts =
     (case find (\<lambda>e. map_of fm (p @ e) \<noteq> None) exts of
        Some e \<Rightarrow> map_option (\<lambda>c. Contents c (getLoader (p @ e))) (map_of fm (p @ e))
      | None \<Rightarrow> None)"
proof (induction exts)
  case Nil
  then show ?case by simp
next
  case (Cons e exts)
  show ?case
  proof (cases "map_of fm (p @ e)")
    case None
    with Cons show ?thesis by simp
  next
    case (Some c)
    with assms have "c \<noteq> []" by blast
    with Some show ?thesis by simp
  qed
qed

lemma onLoad_vfs_without_empty_files:
  assumes "\<forall>k c. map_of fm k = Some c \<longrightarrow> c \<noteq> []"
  shows "onLoad_vfs fm p =
     (case map_of fm p of
        Some c \<Rightarrow> Contents c (getLoader p)
      | None \<Rightarrow>
          (case find (\<lambda>e. map_of fm (p @ e) \<noteq> None) extensions of
             Some e \<Rightarrow>
               (case map_of fm (p @ e) of
                  Some c \<Rightarrow> Contents c (getLoader (p @ e))
                | None \<Rightarrow> LoadErrors [''File not found in VFS: '' @ p])
           | None \<Rightarrow> LoadErrors [''File not found in VFS: '' @ p]))"
proof (cases "map_of fm p")
  case None
  then show ?thesis
    by (simp add: onLoad_vfs_def probe_find[OF assms] split: option.splits)
next
  case (Some c)
  with assms have "c \<noteq> []" by blast
  with Some show ?thesis
    by (simp add: onLoad_vfs_def)
qed

text \<open>
  Claim C2. A key that is present with its exact name should be loaded with its own
  content, and probing should take the first extension whose key is present. The
  loader tests the content instead of the presence of the key, so a file whose
  content is the empty string counts as missing: loading the present key
  \<^verbatim>\<open>src/styles.css\<close> ends in the file-not-found error, and for \<^verbatim>\<open>src/a\<close> the
  present but empty \<^verbatim>\<open>src/a.tsx\<close> is skipped in favour of \<^verbatim>\<open>src/a.ts\<close>.
  (\<open>onLoad_vfs_without_empty_files\<close> above is the claim for maps without an empty
  file.)
\<close>

theorem onLoad_vfs_empty_file:
  "onLoad_vfs [(''src/main.tsx'', ''import ./styles.css''), (''src/styles.css'', [])]
      ''src/styles.css''
     = LoadErrors [''File not found in VFS: src/styles.css'']
   \<and> onLoad_vfs [(''src/a.tsx'', []), (''src/a.ts'', ''export const x = 1'')] ''src/a''
     = Contents ''export const x = 1'' ''ts''"
  by (simp add: onLoad_vfs_def extensions_def getLoader_def path_extname_def basename_part_def)

section \<open>The bundle pipeline\<close>

lemma fold_update: "fold (\<lambda>(k, v) m. m(k \<mapsto> v)) es m = m ++ map_of (rev es)"
  by (induction es arbitrary: m) (auto simp: map_add_def split: option.splits)

lemma object_of_map_of: "object_of es = map_of (rev es)"
  by (simp add: object_of_def fold_update)

lemma define_option_lookup:
  "define_option ev k =
     (case map_of (rev (map (\<lambda>(k, v). (''process.env.'' @ k, JSON_stringify v))
                     (case ev of None \<Rightarrow> [] | Some e \<Rightarrow> e))) k of
        Some x \<Rightarrow> Some x
      | None \<Rightarrow> (if k = ''process.env.NODE_ENV'' then Some (dquote # ''development'' @ [dquote])
                 else None))"
  by (simp add: define_option_def object_of_map_of define_entries_def map_add_def
           split: option.splits)

text \<open>
  Claim C8. For a request whose \<^verbatim>\<open>env_vars\<close> object has the entries \<open>env\<close> (an
  object has each key once), the \<^verbatim>\<open>define\<close> option handed to the bundler maps
  \<^verbatim>\<open>process.env.K\<close> to \<^verbatim>\<open>JSON.stringify(v)\<close> for every entry \<open>(K, v)\<close>, and maps
  \<^verbatim>\<open>process.env.NODE_ENV\<close> to the literal \<^verbatim>\<open>"development"\<close> when \<^verbatim>\<open>env_vars\<close> is
  missing or has no \<^verbatim>\<open>NODE_ENV\<close> of its own.
\<close>

theorem env_substitution:
  assumes "distinct (map fst env)"
  shows "(\<forall>K v. (K, v) \<in> set env \<longrightarrow>
            opt_define (build_options_of (Some env)) (''process.env.'' @ K)
              = Some (JSON_stringify v))
     \<and> (''NODE_ENV'' \<notin> fst ` set env \<longrightarrow>
            opt_define (build_options_of (Some env)) ''process.env.NODE_ENV''
              = Some (dquote # ''development'' @ [dquote]))
     \<and> opt_define (build_options_of None) ''process.env.NODE_ENV''
              = Some (dquote # ''development'' @ [dquote])"
proof -
  let ?f = "\<lambda>(k, v). (''process.env.'' @ k, JSON_stringify v)"
  have fst: "map fst (map ?f env) = map (\<lambda>k. ''process.env.'' @ k) (map fst env)"
    by (induction env) auto
  have "inj_on (\<lambda>k::string. ''process.env.'' @ k) (set (map fst env))"
    by (rule inj_onI) simp
  with assms have "distinct (map (\<lambda>k. ''process.env.'' @ k) (map fst env))"
    by (simp only: distinct_map)
  then have "distinct (map fst (map ?f env))"
    by (simp only: fst)
  then have d: "distinct (map fst (rev (map ?f env)))"
    by (simp only: rev_map[symmetric] distinct_rev)
  have a: "opt_define (build_options_of (Some env)) (''process.env.'' @ K)
              = Some (JSON_stringify v)" if "(K, v) \<in> set env" for K v
  proof -
    from that have "(''process.env.'' @ K, JSON_stringify v) \<in> set (rev (map ?f env))"
      by force
    with d have "map_of (rev (map ?f env)) (''process.env.'' @ K) = Some (JSON_stringify v)"
      by (rule map_of_is_SomeI)
    then show ?thesis
      by (simp add: build_options_of_def define_option_lookup)
  qed
  have b: "opt_define (build_options_of (Some env)) ''process.env.NODE_ENV''
              = Some (dquote # ''development'' @ [dquote])" if "''NODE_ENV'' \<notin> fst ` set env"
  proof -
    have "''process.env.NODE_ENV'' \<notin> fst ` set (rev (map ?f env))"
      using that by force
    then have "map_of (rev (map ?f env)) ''process.env.NODE_ENV'' = None"
      by (simp add: map_of_eq_None_iff del: set_rev set_map)
    then show ?thesis
      by (simp add: build_options_of_def define_option_lookup)
  qed
  have c: "opt_define (build_options_of None) ''process.env.NODE_ENV''
              = Some (dquote # ''development'' @ [dquote])"
    by (simp add: build_options_of_def define_option_lookup)
  from a b c show ?thesis by blast
qed

text \<open>The theorem at a request that sets one variable and overrides \<^verbatim>\<open>NODE_ENV\<close>.\<close>

theorem env_substitution_witness:
  "opt_define (build_options_of (Some [(''API_URL'', ''https://x.test/a''),
                                       (''NODE_ENV'', ''production'')]))
       ''process.env.API_URL'' = Some (dquote # ''https://x.test/a'' @ [dquote])
   \<and> opt_define (build_options_of (Some [(''API_URL'', ''https://x.test/a''),
                                       (''NODE_ENV'', ''production'')]))
       ''process.env.NODE_ENV'' = Some (dquote # ''production'' @ [dquote])
   \<and> opt_define (build_options_of (Some [(''API_URL'', ''https://x.test/a'')]))
       ''process.env.NODE_ENV'' = Some (dquote # ''development'' @ [dquote])"
proof -
  have s1: "JSON_stringify ''https://x.test/a'' = dquote # ''https://x.test/a'' @ [dquote]"
    by (simp add: JSON_stringify_def json_escape_def)
  have s2: "JSON_stringify ''production'' = dquote # ''production'' @ [dquote]"
    by (simp add: JSON_stringify_def json_escape_def)
  have d2: "distinct (map fst [(''API_URL'', ''https://x.test/a''), (''NODE_ENV'', ''production'')])"
    by simp
  have d1: "distinct (map fst [(''API_URL'', ''https://x.test/a'')])"
    by simp
  from env_substitution[OF d2] s1 s2 env_substitution[OF d1] show ?thesis
    by simp
qed

lemma onResolve_collects:
  "onResolve a ce =
     (fst (onResolve a []), if is_external (fst (onResolve a [])) then ce @ [path a] else ce)"
  by (simp add: onResolve_def Let_def is_external_def)

lemma resolve_all_collects:
  "snd (resolve_all calls ce) = ce @ bare_specifiers calls"
proof (induction calls arbitrary: ce)
  case Nil
  then show ?case by (simp add: bare_specifiers_def)
next
  case (Cons a calls)
  have "snd (resolve_all (a # calls) ce) = snd (resolve_all calls (snd (onResolve a ce)))"
    by (simp split: prod.splits)
  also have "\<dots> = snd (onResolve a ce) @ bare_specifiers calls"
    by (rule Cons.IH)
  also have "\<dots> = ce @ bare_specifiers (a # calls)"
    by (subst onResolve_collects) (simp add: bare_specifiers_def)
  finally show ?case .
qed

lemma foldl_Set_add:
  "distinct acc \<Longrightarrow>
   distinct (foldl Set_add acc xs) \<and> set (foldl Set_add acc xs) = set acc \<union> set xs"
  by (induction xs arbitrary: acc) (auto simp: Set_add_def)

lemma new_Set_distinct: "distinct (new_Set xs)"
  using foldl_Set_add[of "[]" xs] by (simp add: new_Set_def)

lemma new_Set_set: "set (new_Set xs) = set xs"
  using foldl_Set_add[of "[]" xs] by (simp add: new_Set_def)

lemma distinct_count_list: "distinct xs \<Longrightarrow> x \<in> set xs \<Longrightarrow> count_list xs x = 1"
  by (induction xs) auto

lemma new_Set_once: "s \<in> set xs \<Longrightarrow> count_list (new_Set xs) s = 1"
  by (simp add: distinct_count_list new_Set_distinct new_Set_set)

lemma runtime_packages_external:
  assumes "p \<in> set external" "kind a \<noteq> ''entry-point''" "path a = p"
  shows "onResolve a ce = (ExternalPath p, ce @ [p])"
  using assms
  by (auto simp: external_def onResolve_def startsWith_def endsWith_def)

lemma esbuild_build_resolved:
  assumes "esbuild_build eng (build_options_of ev) fs [] = (BuildResolved outs, collected)"
  shows "\<exists>c l. load fs ''vfs'' ''src/main.tsx'' = Contents c l
     \<and> collected = bare_specifiers (edges eng (build_options_of ev) c l)"
proof -
  have e: "opt_entryPoints (build_options_of ev) = [''src/main.tsx'']"
    by (simp add: build_options_of_def entryPoints_def)
  have r: "onResolve \<lparr>path = ''src/main.tsx'', importer = [], kind = ''entry-point''\<rparr> []
      = (InNamespace ''src/main.tsx'' ''vfs'', [])"
    by (simp add: onResolve_def)
  show ?thesis
  proof (cases "load fs ''vfs'' ''src/main.tsx''")
    case (LoadErrors texts)
    with assms show ?thesis
      by (simp add: esbuild_build_def e r Let_def)
  next
    case (Contents c l)
    with assms have "collected = snd (resolve_all (edges eng (build_options_of ev) c l) [])"
      by (auto simp: esbuild_build_def e r split: prod.splits)
    with Contents show ?thesis
      by (simp add: resolve_all_collects)
  qed
qed

text \<open>
  Claim C6. Whatever import edges the engine resolves, \<^verbatim>\<open>collectedExternals\<close> grows
  by exactly the specifiers the plugin classifies as external; the \<^verbatim>\<open>externals\<close>
  field of the success envelope is that list through a \<^verbatim>\<open>Set\<close>, so it has no
  duplicates, the same members, and each collected specifier exactly once. A
  specifier of the always-external list (\<^verbatim>\<open>react\<close>, \<^verbatim>\<open>react-dom\<close>,
  \<^verbatim>\<open>react-dom/client\<close>) is classified external from every importer. For a
  successful run of the whole pipeline the \<^verbatim>\<open>externals\<close> field is the de-duplicated
  list of the external specifiers among the edges of that build.
\<close>

theorem externals_listed_once:
  "snd (resolve_all calls ce) = ce @ bare_specifiers calls
   \<and> res_externals (succeeded outs collected) = Some (new_Set collected)
   \<and> distinct (new_Set collected)
   \<and> set (new_Set collected) = set collected
   \<and> (\<forall>s\<in>set collected. count_list (new_Set collected) s = 1)
   \<and> (\<forall>p\<in>set external. \<forall>a. kind a \<noteq> ''entry-point'' \<and> path a = p \<longrightarrow>
         onResolve a ce = (ExternalPath p, ce @ [p]))
   \<and> (trim inputData \<noteq> [] \<and> parse inputData = Inr req
        \<and> res_success (build_main parse eng inputData) \<longrightarrow>
        (\<exists>c l. load (files req) ''vfs'' ''src/main.tsx'' = Contents c l
           \<and> res_externals (build_main parse eng inputData)
             = Some (new_Set (bare_specifiers
                 (edges eng (build_options_of (env_vars req)) c l)))))"
proof -
  have build: "\<exists>c l. load (files req) ''vfs'' ''src/main.tsx'' = Contents c l
           \<and> res_externals (build_main parse eng inputData)
             = Some (new_Set (bare_specifiers
                 (edges eng (build_options_of (env_vars req)) c l)))"
    if i: "trim inputData \<noteq> []" "parse inputData = Inr req"
      and s: "res_success (build_main parse eng inputData)"
  proof -
    obtain outcome collected
      where b: "esbuild_build eng (build_options_of (env_vars req)) (files req) []
                  = (outcome, collected)"
      by (cases "esbuild_build eng (build_options_of (env_vars req)) (files req) []")
    show ?thesis
    proof (cases outcome)
      case (BuildRejected msg errs)
      with i b s show ?thesis
        by (simp add: build_main_def failure_def)
    next
      case (BuildResolved outs)
      with b esbuild_build_resolved obtain c l
        where "load (files req) ''vfs'' ''src/main.tsx'' = Contents c l"
          and "collected = bare_specifiers (edges eng (build_options_of (env_vars req)) c l)"
        by blast
      with i b BuildResolved show ?thesis
        by (simp add: build_main_def succeeded_def split: prod.splits)
    qed
  qed
  have env: "res_externals (succeeded outs collected) = Some (new_Set collected)"
    by (simp add: succeeded_def split: prod.splits)
  from resolve_all_collects env new_Set_distinct new_Set_set new_Set_once
    runtime_packages_external build
  show ?thesis by blast
qed

lemma two_importers_bare:
  "bare_specifiers (edges two_importers opts c l)
     = [''react'', ''react'', ''lodash'', ''react-dom/client'']"
  by (simp add: two_importers_def bare_specifiers_def is_external_def onResolve_def
      startsWith_def endsWith_def Let_def)

text \<open>
  The theorem at a build in which \<^verbatim>\<open>react\<close> is imported from two files: it is
  listed once.
\<close>

theorem externals_listed_once_witness:
  "res_externals (build_main (\<lambda>_. Inr one_file) two_importers request_text)
     = Some [''react'', ''lodash'', ''react-dom/client'']"
proof -
  have t: "trim request_text \<noteq> []"
    by (rule request_text_not_blank)
  have l: "load (files one_file) ''vfs'' ''src/main.tsx''
      = Contents ''export {}'' ''tsx''"
    by (simp add: load_def one_file_def onLoad_vfs_def getLoader_def path_extname_def
        basename_part_def)
  have r: "onResolve \<lparr>path = ''src/main.tsx'', importer = [], kind = ''entry-point''\<rparr> []
      = (InNamespace ''src/main.tsx'' ''vfs'', [])"
    by (simp add: onResolve_def)
  have s: "res_success (build_main (\<lambda>_. Inr one_file) two_importers request_text)"
    using t
    by (simp add: build_main_def esbuild_build_def build_options_of_def entryPoints_def r l
        succeeded_def two_importers_def split: prod.splits)
  from externals_listed_once[of _ _ _ _ "request_text" "\<lambda>_. Inr one_file" one_file two_importers] t s
  obtain c l where
    "res_externals (build_main (\<lambda>_. Inr one_file) two_importers request_text)
       = Some (new_Set (bare_specifiers
            (edges two_importers (build_options_of (env_vars one_file)) c l)))"
    by blast
  then show ?thesis
    by (simp add: two_importers_bare new_Set_def Set_add_def)
qed

lemma probe_absent:
  "(\<forall>e\<in>set exts. map_of fm (p @ e) = None) \<Longrightarrow> probe fm p exts = None"
  by (induction exts) auto

text \<open>
  Claim C10. The entry point handed to the bundler is \<^verbatim>\<open>src/main.tsx\<close> for every
  request. When the file map has neither that key nor one of the six probed
  variants, the pipeline prints the failure envelope whose error is
  \<^verbatim>\<open>File not found in VFS: src/main.tsx\<close>, whatever the engine would do later.
\<close>

theorem missing_entry_fails:
  assumes "trim inputData \<noteq> []" and "parse inputData = Inr req" and "files req = Some fm"
    and "\<forall>k\<in>set (''src/main.tsx'' # map (\<lambda>e. ''src/main.tsx'' @ e) extensions).
           k \<notin> fst ` set fm"
  shows "opt_entryPoints (build_options_of (env_vars req)) = [''src/main.tsx'']
     \<and> build_main parse eng inputData = failure ''File not found in VFS: src/main.tsx''"
proof -
  have e: "opt_entryPoints (build_options_of (env_vars req)) = [''src/main.tsx'']"
    by (simp add: build_options_of_def entryPoints_def)
  have r: "onResolve \<lparr>path = ''src/main.tsx'', importer = [], kind = ''entry-point''\<rparr> []
      = (InNamespace ''src/main.tsx'' ''vfs'', [])"
    by (simp add: onResolve_def)
  from assms(4) have exact: "map_of fm ''src/main.tsx'' = None"
    by (simp add: map_of_eq_None_iff)
  from assms(4) have "\<forall>e\<in>set extensions. map_of fm (''src/main.tsx'' @ e) = None"
    by (simp add: map_of_eq_None_iff)
  then have "probe fm ''src/main.tsx'' extensions = None"
    by (rule probe_absent)
  with exact have l: "load (files req) ''vfs'' ''src/main.tsx''
      = LoadErrors [''File not found in VFS: src/main.tsx'']"
    by (simp add: load_def assms(3) onLoad_vfs_def)
  have m: "errorMsg s [\<lparr>err_text = ''File not found in VFS: src/main.tsx'', err_location = None\<rparr>]
      = ''File not found in VFS: src/main.tsx''" for s
    by (simp add: errorMsg_def format_error_def)
  from assms(1,2) have "build_main parse eng inputData
      = failure ''File not found in VFS: src/main.tsx''"
    by (simp add: build_main_def esbuild_build_def e r l m Let_def)
  with e show ?thesis by simp
qed

text \<open>The theorem at a request that has \<^verbatim>\<open>src/App.tsx\<close> only.\<close>

theorem missing_entry_fails_witness:
  "build_main (\<lambda>_. Inr no_entry) idle_engine no_entry_text
     = failure ''File not found in VFS: src/main.tsx''"
proof -
  have t: "trim no_entry_text \<noteq> []"
    by (rule no_entry_text_not_blank)
  have f: "files no_entry = Some [(''src/App.tsx'', ''export {}'')]"
    by (simp add: no_entry_def)
  have a: "\<forall>k\<in>set (''src/main.tsx'' # map (\<lambda>e. ''src/main.tsx'' @ e) extensions).
           k \<notin> fst ` set [(''src/App.tsx'', ''export {}'')]"
    by (simp add: extensions_def)
  from missing_entry_fails[OF t _ f a, of "\<lambda>_. Inr no_entry" idle_engine] show ?thesis
    by simp
qed

section \<open>The type-validation pipeline\<close>

lemma trim_Nil_iff: "trim s = [] \<longleftrightarrow> (\<forall>c\<in>set s. is_ws c)"
proof
  assume "trim s = []"
  then have a: "\<forall>c\<in>set (dropWhile is_ws s). is_ws c"
    by (simp add: trim_def)
  have "dropWhile is_ws s = []"
  proof (rule ccontr)
    assume ne: "dropWhile is_ws s \<noteq> []"
    then have "\<not> is_ws (hd (dropWhile is_ws s))" by (rule hd_dropWhile)
    moreover from ne have "hd (dropWhile is_ws s) \<in> set (dropWhile is_ws s)" by simp
    ultimately show False using a by blast
  qed
  then show "\<forall>c\<in>set s. is_ws c" by simp
next
  assume "\<forall>c\<in>set s. is_ws c"
  then show "trim s = []" by (auto simp: trim_def dest: set_dropWhileD)
qed

lemma set_join: "l \<in> set ls \<Longrightarrow> set l \<subseteq> set (join sep ls)"
  by (induction sep ls rule: join.induct) auto

lemma startsWith_append: "startsWith pat s \<Longrightarrow> s = pat @ drop (length pat) s"
  by (metis append_take_drop_id startsWith_def)

lemma replace_contains:
  "str_includes pat s \<Longrightarrow> set rep \<subseteq> set (replace pat rep s)"
proof (induction s)
  case Nil
  then show ?case by simp
next
  case (Cons x xs)
  then show ?case by (cases "startsWith pat (x # xs)") auto
qed

lemma rewrite_line_not_blank:
  assumes "trim ln \<noteq> []"
  shows "trim (rewrite_line d ln) \<noteq> []"
proof (cases "d \<noteq> [] \<and> str_includes d ln")
  case True
  then have "set ''vfs:'' \<subseteq> set (replace d ''vfs:'' ln)"
    by (intro replace_contains) simp
  then have "CHR ''v'' \<in> set (rewrite_line d ln)"
    using True by (simp add: rewrite_line_def)
  moreover have "\<not> is_ws CHR ''v''" by (simp add: is_ws_def)
  ultimately show ?thesis by (auto simp: trim_Nil_iff)
next
  case False
  with assms show ?thesis by (auto simp: rewrite_line_def)
qed

lemma keep_line_iff:
  "keep_line ln \<longleftrightarrow>
     trim ln \<noteq> [] \<and> \<not> str_includes ''error TS2307:'' ln \<and> \<not> str_includes ''error TS7016:'' ln"
  by (simp add: keep_line_def)

lemma cleanedOutput_blank_iff:
  "trim (cleanedOutput d rawOutput) = [] \<longleftrightarrow>
   filter keep_line (split CHR 0x0A rawOutput) = []"
proof
  assume blank: "trim (cleanedOutput d rawOutput) = []"
  show "filter keep_line (split CHR 0x0A rawOutput) = []"
  proof (rule ccontr)
    assume "filter keep_line (split CHR 0x0A rawOutput) \<noteq> []"
    then obtain ln where ln: "ln \<in> set (filter keep_line (split CHR 0x0A rawOutput))"
      by (cases "filter keep_line (split CHR 0x0A rawOutput)") auto
    then have "trim ln \<noteq> []" by (simp add: keep_line_iff)
    then have "trim (rewrite_line d ln) \<noteq> []" by (rule rewrite_line_not_blank)
    then obtain c where c: "c \<in> set (rewrite_line d ln)" "\<not> is_ws c"
      by (auto simp: trim_Nil_iff)
    from ln have "rewrite_line d ln
        \<in> set (map (rewrite_line d) (filter keep_line (split CHR 0x0A rawOutput)))"
      by (intro imageI[of _ _ "rewrite_line d", THEN subst[OF set_map[symmetric], of "\<lambda>S. _ \<in> S"]])
    then have "set (rewrite_line d ln) \<subseteq> set (cleanedOutput d rawOutput)"
      unfolding cleanedOutput_def by (rule set_join)
    with c blank show False by (auto simp: trim_Nil_iff)
  qed
next
  assume "filter keep_line (split CHR 0x0A rawOutput) = []"
  then show "trim (cleanedOutput d rawOutput) = []"
    by (simp add: cleanedOutput_def trim_def)
qed

text \<open>
  Claim C4. A line of the checker's output is kept exactly when it is not blank and
  contains neither \<^verbatim>\<open>error TS2307:\<close> nor \<^verbatim>\<open>error TS7016:\<close>. When the checker
  reported failure and no line is kept, the envelope is the success envelope with the
  message about ignored missing modules; when a line is kept, the envelope is a
  failure that carries the raw output.
\<close>

theorem noise_only_is_success:
  "(keep_line ln \<longleftrightarrow>
      trim ln \<noteq> [] \<and> \<not> str_includes ''error TS2307:'' ln
      \<and> \<not> str_includes ''error TS7016:'' ln)
   \<and> (exec_error r = Some msg \<longrightarrow>
        (filter keep_line (split CHR 0x0A (rawOutput_of r msg)) = [] \<longrightarrow>
           report tmpDir r
             = succeeded_with ''No critical errors found (ignored missing modules).'')
      \<and> (filter keep_line (split CHR 0x0A (rawOutput_of r msg)) \<noteq> [] \<longrightarrow>
           \<not> res_success (report tmpDir r)
           \<and> res_raw (report tmpDir r) = Some (rawOutput_of r msg)))"
  by (simp add: keep_line_iff report_def Let_def cleanedOutput_blank_iff)

lemma noise_only_lines:
  "filter keep_line (split CHR 0x0A (rawOutput_of noise_only m)) = []"
  by (simp add: noise_only_def rawOutput_of_def nl_def keep_line_def trim_def is_ws_def
      startsWith_def)

lemma one_genuine_error_lines:
  "filter keep_line (split CHR 0x0A (rawOutput_of one_genuine_error m))
     = [''src/main.tsx(4,7): error TS2322: Type string is not assignable to type number.'']"
  by (simp add: one_genuine_error_def rawOutput_of_def nl_def keep_line_def trim_def is_ws_def
      startsWith_def)

text \<open>
  The theorem at an output of two suppressed lines, and at one with a suppressed line
  and a genuine error.
\<close>

theorem noise_only_is_success_witness:
  "report scope_root noise_only
     = succeeded_with ''No critical errors found (ignored missing modules).''
   \<and> \<not> res_success (report scope_root one_genuine_error)"
proof -
  have e1: "exec_error noise_only
      = Some ''Command failed: node tsc -p . --noEmit --pretty false''"
    by (simp add: noise_only_def)
  have e2: "exec_error one_genuine_error
      = Some ''Command failed: node tsc -p . --noEmit --pretty false''"
    by (simp add: one_genuine_error_def)
  from noise_only_is_success[of _ noise_only _ scope_root] e1 noise_only_lines
  have a: "report scope_root noise_only
     = succeeded_with ''No critical errors found (ignored missing modules).''"
    by blast
  from noise_only_is_success[of _ one_genuine_error _ scope_root] e2
  have b: "\<not> res_success (report scope_root one_genuine_error)"
    by (simp add: one_genuine_error_lines)
  from a b show ?thesis by simp
qed

text \<open>
  Claim C7. Every reference to the scope's root that is left in the filtered text
  should read \<^verbatim>\<open>vfs:\<close>. \<^verbatim>\<open>String.prototype.replace\<close> with a string pattern
  replaces the first occurrence only, so on a line that names the root twice the
  second reference stays: the reported error of the casing diagnostic below still
  contains the root.
\<close>

theorem second_reference_survives:
  "res_error (report scope_root casing_error)
     = Some (''src/main.tsx(1,19): error TS1261: Already included file name ''
             @ [CHR 0x27] @ ''vfs:/src/App.tsx'' @ [CHR 0x27]
             @ '' differs from file name ''
             @ [CHR 0x27] @ ''/tmp/nekro-check-Ab12Cd/src/app.tsx'' @ [CHR 0x27]
             @ '' only in casing.'')
   \<and> str_includes scope_root
        (''src/main.tsx(1,19): error TS1261: Already included file name ''
             @ [CHR 0x27] @ ''vfs:/src/App.tsx'' @ [CHR 0x27]
             @ '' differs from file name ''
             @ [CHR 0x27] @ ''/tmp/nekro-check-Ab12Cd/src/app.tsx'' @ [CHR 0x27]
             @ '' only in casing.'')"
  by (simp add: report_def casing_error_def scope_root_def rawOutput_of_def nl_def
      cleanedOutput_def keep_line_def rewrite_line_def trim_def is_ws_def startsWith_def
      limit_length_def Let_def)

text \<open>
  Claim C9. When the checker reported failure and the filtered text is not empty, the
  \<^verbatim>\<open>error\<close> field is the filtered text itself if that has at most 2000 characters,
  and otherwise its first 2000 characters followed by the truncation marker; the
  \<^verbatim>\<open>raw\<close> field is the whole unfiltered output.
\<close>

theorem truncation_at_2000:
  assumes "exec_error r = Some msg"
    and "cleanedOutput tmpDir (rawOutput_of r msg) \<noteq> []"
  shows "res_error (report tmpDir r)
       = Some (let cleaned = cleanedOutput tmpDir (rawOutput_of r msg)
               in if length cleaned > 2000
                    then take 2000 cleaned @ nl @ ''... (Status: Truncated due to length)''
                  else cleaned)
     \<and> res_raw (report tmpDir r) = Some (rawOutput_of r msg)
     \<and> \<not> res_success (report tmpDir r)"
proof -
  from assms(2) have "filter keep_line (split CHR 0x0A (rawOutput_of r msg)) \<noteq> []"
    by (auto simp: cleanedOutput_def)
  then have "trim (cleanedOutput tmpDir (rawOutput_of r msg)) \<noteq> []"
    by (simp add: cleanedOutput_blank_iff)
  with assms(1) show ?thesis
    by (simp add: report_def Let_def limit_length_def substring_to_def)
qed

lemma split_single: "c \<notin> set s \<Longrightarrow> split c s = [s]"
  by (induction s) auto

lemma str_includes_subset: "str_includes pat s \<Longrightarrow> set pat \<subseteq> set s"
proof (induction s)
  case Nil
  then show ?case by simp
next
  case (Cons x xs)
  show ?case
  proof (cases "startsWith pat (x # xs)")
    case True
    then have "x # xs = pat @ drop (length pat) (x # xs)"
      by (rule startsWith_append)
    then have "set pat \<subseteq> set (x # xs)"
      by (metis set_append Un_upper1)
    then show ?thesis .
  next
    case False
    with Cons show ?thesis by auto
  qed
qed

lemma long_output_cleaned:
  "cleanedOutput scope_root (rawOutput_of long_output m) = replicate 2500 CHR ''x''"
proof -
  let ?s = "replicate 2500 CHR ''x''"
  have raw: "rawOutput_of long_output m = ?s"
    by (simp add: rawOutput_of_def long_output_def)
  have lines: "split CHR 0x0A ?s = [?s]"
    by (rule split_single) simp
  have no: "\<not> str_includes pat ?s" if "CHR ''e'' \<in> set pat \<or> CHR ''/'' \<in> set pat" for pat
    using that str_includes_subset[of pat ?s] by auto
  have "\<not> is_ws CHR ''x''" by (simp add: is_ws_def)
  then have "trim ?s \<noteq> []" by (simp add: trim_Nil_iff)
  then have keep: "keep_line ?s"
    by (simp add: keep_line_def no)
  have rw: "rewrite_line scope_root ?s = ?s"
    by (simp add: rewrite_line_def no scope_root_def)
  show ?thesis
    by (simp only: raw cleanedOutput_def lines keep filter.simps if_True list.map rw join.simps)
qed

text \<open>
  The theorem at an output of one line of 2500 characters, and at a short output.
\<close>

theorem truncation_at_2000_witness:
  "res_error (report scope_root long_output)
     = Some (replicate 2000 CHR ''x'' @ nl @ ''... (Status: Truncated due to length)'')
   \<and> res_raw (report scope_root long_output) = Some (replicate 2500 CHR ''x'')
   \<and> res_error (report scope_root one_genuine_error)
     = Some ''src/main.tsx(4,7): error TS2322: Type string is not assignable to type number.''"
proof -
  let ?m = "''Command failed: node tsc -p . --noEmit --pretty false''"
  have e1: "exec_error long_output = Some ?m"
    by (simp add: long_output_def)
  have raw: "rawOutput_of long_output ?m = replicate 2500 CHR ''x''"
    by (simp add: rawOutput_of_def long_output_def)
  have c1: "cleanedOutput scope_root (rawOutput_of long_output ?m) \<noteq> []"
    by (simp add: long_output_cleaned)
  have a: "res_error (report scope_root long_output)
     = Some (replicate 2000 CHR ''x'' @ nl @ ''... (Status: Truncated due to length)'')
     \<and> res_raw (report scope_root long_output) = Some (replicate 2500 CHR ''x'')"
    using truncation_at_2000[OF e1 c1]
    by (simp add: long_output_cleaned[of ?m, unfolded raw] raw Let_def)
  have e2: "exec_error one_genuine_error = Some ?m"
    by (simp add: one_genuine_error_def)
  have c2: "cleanedOutput scope_root (rawOutput_of one_genuine_error ?m)
     = ''src/main.tsx(4,7): error TS2322: Type string is not assignable to type number.''"
    by (simp add: cleanedOutput_def one_genuine_error_lines rewrite_line_def scope_root_def
        startsWith_def)
  then have n2: "cleanedOutput scope_root (rawOutput_of one_genuine_error ?m) \<noteq> []"
    by simp
  have b: "res_error (report scope_root one_genuine_error)
     = Some ''src/main.tsx(4,7): error TS2322: Type string is not assignable to type number.''"
    using truncation_at_2000[OF e2 n2]
    by (simp add: c2)
  from a b show ?thesis by simp
qed

section \<open>The scope directory and the envelope\<close>

lemma responses_append: "responses (xs @ ys) = responses xs @ responses ys"
  by (induction xs rule: responses.induct) simp_all

lemma write_files_quiet: "write_files w d fm = (evs, r) \<Longrightarrow> responses evs = []"
proof (induction fm arbitrary: evs r)
  case Nil
  then show ?case by simp
next
  case (Cons a fm)
  obtain fp c where a: "a = (fp, c)" by (cases a)
  obtain evs' r' where rec: "write_files w d fm = (evs', r')"
    by (cases "write_files w d fm")
  from Cons.IH[OF rec] have "responses evs' = []" .
  with Cons.prems a rec show ?case
    by (auto simp: Let_def split: option.splits)
qed

lemma well_formed_failure: "well_formed (failure msg)"
  by (simp add: well_formed_def failure_def)

lemma well_formed_succeeded_with: "well_formed (succeeded_with msg)"
  by (simp add: well_formed_def succeeded_with_def)

lemma well_formed_report: "well_formed (report d r)"
  by (simp add: report_def Let_def succeeded_with_def well_formed_def
           split: option.splits)

lemma well_formed_succeeded: "well_formed (succeeded outs ce)"
  by (simp add: succeeded_def well_formed_def split: prod.splits)

lemma responses_catch_handler: "responses (catch_handler w d msg) = [failure msg]"
  by (simp add: catch_handler_def cleanup_def responses_append split: option.splits)

lemma responses_run_tsc:
  "\<exists>e. responses (run_tsc w d tsc) = [e] \<and> well_formed e"
  by (simp add: run_tsc_def Let_def cleanup_def responses_append well_formed_report)

lemma responses_find_and_run:
  "\<exists>e. responses (find_and_run w d) = [e] \<and> well_formed e"
  using responses_run_tsc
  by (simp add: find_and_run_def Let_def cleanup_def well_formed_succeeded_with)

lemma check_main_one_response:
  "\<exists>e. responses (check_main parse w inputData) = [e] \<and> well_formed e"
proof -
  note c = responses_catch_handler well_formed_failure
  show ?thesis
  proof (cases "trim inputData = []")
    case True
    then show ?thesis by (simp add: check_main_def c)
  next
    case blank: False
    show ?thesis
    proof (cases "parse inputData")
      case (Inl msg)
      with blank show ?thesis by (simp add: check_main_def c)
    next
      case (Inr req)
      show ?thesis
      proof (cases "mkdtempSync w (path_join [tmpdir w, ''nekro-check-''])")
        case (Inl msg)
        with blank Inr show ?thesis by (simp add: check_main_def c)
      next
        case tmp: (Inr d)
        show ?thesis
        proof (cases "files req")
          case None
          with blank Inr tmp show ?thesis by (simp add: check_main_def c)
        next
          case (Some fm)
          obtain evs r where wf: "write_files w d fm = (evs, r)"
            by (cases "write_files w d fm")
          then have q: "responses evs = []" by (rule write_files_quiet)
          show ?thesis
          proof (cases r)
            case thrown: (Some msg)
            with blank Inr tmp Some wf q show ?thesis
              by (simp add: check_main_def c responses_append)
          next
            case None
            show ?thesis
            proof (cases "writeFileSync_error w (path_join [d, ''tsconfig.json''])")
              case thrown: (Some msg)
              with blank Inr tmp Some wf q None show ?thesis
                by (simp add: check_main_def c responses_append Let_def)
            next
              case ok: None
              with blank Inr tmp Some wf q None responses_find_and_run[of w d] show ?thesis
                by (simp add: check_main_def responses_append Let_def)
            qed
          qed
        qed
      qed
    qed
  qed
qed

lemma build_main_well_formed: "well_formed (build_main parse eng inputData)"
  by (auto simp: build_main_def well_formed_failure well_formed_succeeded
           split: sum.splits prod.splits build_outcome.splits)

lemma responses_ignore_rmSync:
  "responses (check_main parse (w\<lparr>rmSync_throws := b\<rparr>) inputData)
     = responses (check_main parse w inputData)"
proof -
  have wf: "write_files (w\<lparr>rmSync_throws := b\<rparr>) d fm = write_files w d fm" for d fm
    by (induction fm) (auto simp: Let_def split: option.splits)
  have ch: "responses (catch_handler (w\<lparr>rmSync_throws := b\<rparr>) d msg)
     = responses (catch_handler w d msg)" for d msg
    by (simp add: responses_catch_handler)
  have rt: "responses (run_tsc (w\<lparr>rmSync_throws := b\<rparr>) d tsc) = responses (run_tsc w d tsc)"
    for d tsc
    by (simp add: run_tsc_def Let_def cleanup_def responses_append)
  have fr: "responses (find_and_run (w\<lparr>rmSync_throws := b\<rparr>) d)
     = responses (find_and_run w d)" for d
    using rt by (simp add: find_and_run_def Let_def cleanup_def)
  show ?thesis
    by (auto simp: check_main_def wf ch fr responses_append Let_def
             split: sum.splits option.splits prod.splits)
qed

lemma write_files_skip:
  "write_files w d fm = (evs, r) \<Longrightarrow>
   deleted_before_response live (evs @ rest) = deleted_before_response live rest"
proof (induction fm arbitrary: evs r)
  case Nil
  then show ?case by simp
next
  case (Cons a fm)
  obtain fp c where a: "a = (fp, c)" by (cases a)
  obtain evs' r' where rec: "write_files w d fm = (evs', r')"
    by (cases "write_files w d fm")
  note ih = Cons.IH[OF rec]
  from Cons.prems a rec ih show ?case
    by (auto simp: Let_def split: option.splits)
qed

lemma catch_handler_deletes_first:
  "d \<noteq> [] \<Longrightarrow> deleted_before_response (Some d) (catch_handler w (Some d) msg)"
  by (simp add: catch_handler_def cleanup_def)

lemma catch_handler_no_scope:
  "deleted_before_response None (catch_handler w None msg)"
  by (simp add: catch_handler_def)

lemma run_tsc_deletes_first:
  "deleted_before_response (Some d) (run_tsc w d tsc)"
  by (simp add: run_tsc_def cleanup_def Let_def)

lemma find_and_run_deletes_first:
  assumes "existsSync w (path_resolve (dirname w) ''node_modules/.bin/tsc'')
         \<or> existsSync w (path_resolve (dirname w) ''node_modules/typescript/bin/tsc'')"
  shows "deleted_before_response (Some d) (find_and_run w d)"
  using assms by (auto simp: find_and_run_def Let_def run_tsc_deletes_first)

lemma check_main_deletes_first:
  assumes nonempty: "\<And>p. mkdtempSync w p \<noteq> Inr []"
    and found: "existsSync w (path_resolve (dirname w) ''node_modules/.bin/tsc'')
         \<or> existsSync w (path_resolve (dirname w) ''node_modules/typescript/bin/tsc'')"
  shows "deleted_before_response None (check_main parse w inputData)"
proof -
  note c = catch_handler_no_scope catch_handler_deletes_first
  show ?thesis
  proof (cases "trim inputData = []")
    case True
    then show ?thesis by (simp add: check_main_def c)
  next
    case blank: False
    show ?thesis
    proof (cases "parse inputData")
      case (Inl msg)
      with blank show ?thesis by (simp add: check_main_def c)
    next
      case (Inr req)
      show ?thesis
      proof (cases "mkdtempSync w (path_join [tmpdir w, ''nekro-check-''])")
        case (Inl msg)
        with blank Inr show ?thesis by (simp add: check_main_def c)
      next
        case tmp: (Inr d)
        with nonempty[of "path_join [tmpdir w, ''nekro-check-'']"] have d: "d \<noteq> []"
          by auto
        show ?thesis
        proof (cases "files req")
          case None
          with blank Inr tmp d show ?thesis by (simp add: check_main_def c)
        next
          case (Some fm)
          obtain evs r where wf: "write_files w d fm = (evs, r)"
            by (cases "write_files w d fm")
          note skip = write_files_skip[OF wf]
          show ?thesis
          proof (cases r)
            case thrown: (Some msg)
            with blank Inr tmp Some wf d show ?thesis
              by (simp add: check_main_def c skip)
          next
            case None
            show ?thesis
            proof (cases "writeFileSync_error w (path_join [d, ''tsconfig.json''])")
              case thrown: (Some msg)
              with blank Inr tmp Some wf None d show ?thesis
                by (simp add: check_main_def c skip Let_def)
            next
              case ok: None
              with blank Inr tmp Some wf None find_and_run_deletes_first[OF found, of d]
              show ?thesis
                by (simp add: check_main_def skip Let_def)
            qed
          qed
        qed
      qed
    qed
  qed
qed

text \<open>
  Claim C3. The scope directory should be passed to \<^verbatim>\<open>rmSync\<close> before the envelope
  is printed on every path. The path taken when the checker is found nowhere prints
  the warning envelope first and removes the directory afterwards.
  (\<open>check_main_deletes_first\<close> above is the claim for every other path, and
  \<open>responses_ignore_rmSync\<close> says that a throwing \<^verbatim>\<open>rmSync\<close> changes no response.)
\<close>

theorem checker_missing_responds_first:
  "check_main (\<lambda>_. Inr one_file) no_checker request_text
     = [Mkdtemp ''/tmp/nekro-check-Ab12Cd'',
        Mkdir ''/tmp/nekro-check-Ab12Cd/src'',
        WriteFile ''/tmp/nekro-check-Ab12Cd/src/main.tsx'' ''export {}'',
        WriteFile ''/tmp/nekro-check-Ab12Cd/tsconfig.json'' tsconfig_text,
        ConsoleLog (succeeded_with
          (''Warning: TypeScript compiler (tsc) not found in local_compiler. ''
           @ ''Skipping strict type check.'')),
        Rm ''/tmp/nekro-check-Ab12Cd'' True]
   \<and> \<not> deleted_before_response None (check_main (\<lambda>_. Inr one_file) no_checker request_text)"
proof -
  have t: "trim request_text \<noteq> []"
    by (rule request_text_not_blank)
  have j0: "path_join [''/tmp'', ''nekro-check-''] = ''/tmp/nekro-check-''"
    by (simp add: path_join_def path_normalize_def normalizeString_def)
  have j1: "path_join [''/tmp/nekro-check-Ab12Cd'', ''src/main.tsx'']
      = ''/tmp/nekro-check-Ab12Cd/src/main.tsx''"
    by (simp add: path_join_def path_normalize_def normalizeString_def)
  have d1: "path_dirname ''/tmp/nekro-check-Ab12Cd/src/main.tsx'' = ''/tmp/nekro-check-Ab12Cd/src''"
    by (simp add: path_dirname_def)
  have j2: "path_join [''/tmp/nekro-check-Ab12Cd'', ''tsconfig.json'']
      = ''/tmp/nekro-check-Ab12Cd/tsconfig.json''"
    by (simp add: path_join_def path_normalize_def normalizeString_def)
  have run: "check_main (\<lambda>_. Inr one_file) no_checker request_text
     = [Mkdtemp ''/tmp/nekro-check-Ab12Cd'',
        Mkdir ''/tmp/nekro-check-Ab12Cd/src'',
        WriteFile ''/tmp/nekro-check-Ab12Cd/src/main.tsx'' ''export {}'',
        WriteFile ''/tmp/nekro-check-Ab12Cd/tsconfig.json'' tsconfig_text,
        ConsoleLog (succeeded_with
          (''Warning: TypeScript compiler (tsc) not found in local_compiler. ''
           @ ''Skipping strict type check.'')),
        Rm ''/tmp/nekro-check-Ab12Cd'' True]"
    using t by (simp add: check_main_def one_file_def no_checker_def j0 j1 d1 j2
        find_and_run_def cleanup_def Let_def)
  show ?thesis
    unfolding run by simp
qed

text \<open>
  Claim C5. Every run of the type-validation handler prints exactly one envelope and
  every run of the bundle handler ends in one: whether the input is blank, the
  payload does not parse, a file system call throws, the checker is missing or the
  engine rejects the build. Each envelope is well formed.
\<close>

theorem every_outcome_is_an_envelope:
  "(\<exists>e. responses (check_main parse w inputData) = [e] \<and> well_formed e)
   \<and> well_formed (build_main parse' eng inputData')"
  using check_main_one_response build_main_well_formed by blast

text \<open>The theorem at a blank input and at a payload that does not parse.\<close>

theorem every_outcome_is_an_envelope_witness:
  "responses (check_main (\<lambda>_. Inr one_file) no_checker [])
     = [failure ''No input data received'']
   \<and> well_formed (failure ''No input data received'')
   \<and> well_formed (build_main (\<lambda>_. Inl ''Unexpected end of JSON input'') idle_engine ''{'')"
proof -
  have r: "responses (check_main (\<lambda>_. Inr one_file) no_checker [])
     = [failure ''No input data received'']"
    by (simp add: check_main_def trim_def catch_handler_def)
  from every_outcome_is_an_envelope
    [of "\<lambda>_. Inr one_file" no_checker "[]" "\<lambda>_. Inl ''Unexpected end of JSON input''"
        idle_engine "''{''"] r
  show ?thesis by auto
qed

end
